theory Spec2Isabelle
  imports Main "HOL-Library.Word" "HOL-Library.Multiset"
begin

section \<open>Entity model of the expenses registry (expenses.go)\<close>

text \<open>
  Go pointers are addresses into a typed heap. A pointer of type \<^verbatim>\<open>*Label\<close> is
  \<open>None\<close> (nil) or \<open>Some a\<close>, and every non-nil pointer addresses an object, so each
  heap component is a total function. Pointer chains may therefore be shared or cyclic,
  as they may in Go. \<^verbatim>\<open>int64\<close> is \<open>64 word\<close> and \<^verbatim>\<open>uint16\<close> is \<open>16 word\<close>;
  \<^verbatim>\<open>time.Time\<close> is an opaque instant; \<^verbatim>\<open>*string\<close> is \<open>string option\<close>.
\<close>

type_synonym addr = nat

type_synonym Time = int

record NullString =
  String :: string
  Valid :: bool

record Actor =
  Name :: string
  Flags :: "16 word"
  Headers :: string
  CreatedAt :: Time
  UpdatedAt :: Time

record Label =
  Name :: string
  ParentName :: NullString
  Flags :: "16 word"
  Headers :: string
  CreatedAt :: Time
  UpdatedAt :: Time
  Parent :: "addr option"

record Details =
  UUID :: "string option"
  TransactionUUID :: string
  LabelName :: string
  Amount :: "64 word"
  Flags :: "16 word"
  Headers :: string
  CreatedAt :: Time
  UpdatedAt :: Time
  Transaction :: "addr option"
  Label :: "addr option"

record Transaction =
  UUID :: "string option"
  Date :: Time
  Amount :: "64 word"
  LabelName :: string
  SenderName :: string
  ReceiverName :: string
  Flags :: "16 word"
  Headers :: string
  CreatedAt :: Time
  UpdatedAt :: Time
  Label :: "addr option"
  Sender :: "addr option"
  Receiver :: "addr option"
  Details :: "addr option list"

record heap =
  actors :: "addr \<Rightarrow> Actor"
  labels :: "addr \<Rightarrow> Label"
  details :: "addr \<Rightarrow> Details"

text \<open>
  The errors the hooks build with \<^verbatim>\<open>fmt.Errorf\<close> and \<^verbatim>\<open>errors.New\<close>:
  \<^item> \<open>EmptyActorName\<close>: "Actor cannot have have an empty name";
  \<^item> \<open>EmptyLabelName\<close>: "Label cannot have an empty name";
  \<^item> \<open>DetailsDontAddUp amount sum\<close>: "transaction details don't add up, expected
    \<open>amount\<close> but got \<open>sum\<close>";
  \<^item> \<open>NegativeDetailsAmount\<close>: "details amount cannot be negative".
\<close>

datatype error =
    EmptyActorName
  | EmptyLabelName
  | DetailsDontAddUp "64 word" "64 word"
  | NegativeDetailsAmount

text \<open>
  What a call does: it runs forever, it panics on a nil dereference, or it returns.
\<close>

datatype 'a outcome = Diverges | Panics | Returns 'a

fun bind_outcome :: "'a outcome \<Rightarrow> ('a \<Rightarrow> 'b outcome) \<Rightarrow> 'b outcome" where
  "bind_outcome Diverges f = Diverges"
| "bind_outcome Panics f = Panics"
| "bind_outcome (Returns x) f = f x"

section \<open>Validation hooks\<close>

text \<open>\<^verbatim>\<open>func (a *Actor) BeforeCreate\<close>: the receiver is not changed.\<close>

definition Actor_BeforeCreate :: "Actor \<Rightarrow> error option" where
  "Actor_BeforeCreate a =
     (if Actor.Name a = '''' then Some EmptyActorName else None)"

text \<open>
  \<^verbatim>\<open>func (lb *Label) BeforeCreate\<close>: returns the receiver as the hook leaves it and
  the error.
\<close>

definition Label_BeforeCreate :: "heap \<Rightarrow> Label \<Rightarrow> Label \<times> error option" where
  "Label_BeforeCreate h lb =
     (if Label.Name lb = '''' then (lb, Some EmptyLabelName)
      else
        (case Label.Parent lb of
           None \<Rightarrow> (lb, None)
         | Some p \<Rightarrow>
             (lb\<lparr>Label.ParentName :=
                  \<lparr>String = Label.Name (labels h p), Valid = True\<rparr>\<rparr>, None)))"

text \<open>
  The summing loop of \<^verbatim>\<open>Transaction.BeforeCreate\<close> over \<^verbatim>\<open>[]*Details\<close>:
  \<^verbatim>\<open>d.Amount\<close> on a nil element panics, \<^verbatim>\<open>sum += d.Amount\<close> wraps.
\<close>

fun sum_details :: "heap \<Rightarrow> addr option list \<Rightarrow> 64 word \<Rightarrow> 64 word outcome" where
  "sum_details h [] sm = Returns sm"
| "sum_details h (None # ds) sm = Panics"
| "sum_details h (Some d # ds) sm =
     sum_details h ds (sm + Details.Amount (details h d))"

text \<open>
  \<^verbatim>\<open>func (t *Transaction) BeforeCreate\<close>; \<open>pk\<close> is the string that
  \<^verbatim>\<open>uuid.New().String()\<close> yields in this call.
\<close>

definition Transaction_BeforeCreate ::
  "heap \<Rightarrow> string \<Rightarrow> Transaction \<Rightarrow> (Transaction \<times> error option) outcome" where
  "Transaction_BeforeCreate h pk t0 =
     (let t = (if Transaction.UUID t0 = None
               then t0\<lparr>Transaction.UUID := Some pk\<rparr> else t0)
      in if length (Transaction.Details t) > 0 then
           bind_outcome (sum_details h (Transaction.Details t) 0) (\<lambda>sm.
             let amount = Transaction.Amount t;
                 amount = (if amount <s 0 then amount * (- 1) else amount)
             in if sm \<noteq> amount
                then Returns (t, Some (DetailsDontAddUp amount sm))
                else Returns (t, None))
         else Returns (t, None))"

text \<open>\<^verbatim>\<open>func (d *Details) BeforeCreate\<close>, with \<open>pk\<close> as above.\<close>

definition Details_BeforeCreate :: "string \<Rightarrow> Details \<Rightarrow> Details \<times> error option" where
  "Details_BeforeCreate pk d0 =
     (let d = (if Details.UUID d0 = None
               then d0\<lparr>Details.UUID := Some pk\<rparr> else d0)
      in if Details.Amount d <s 0 then (d, Some NegativeDetailsAmount)
         else (d, None))"

section \<open>The storage handle\<close>

text \<open>
  \<^verbatim>\<open>clause.OnConflict\<close> of gorm, with the fields the registry sets. \<open>DoUpdates\<close>
  holds the column names given to \<^verbatim>\<open>clause.AssignmentColumns\<close>: each named column
  is assigned the incoming row's value of the same column.
\<close>

record OnConflict =
  Columns :: "string list"
  DoNothing :: bool
  DoUpdates :: "string list"
  UpdateAll :: bool

definition OnConflict_zero :: OnConflict where
  "OnConflict_zero = \<lparr>Columns = [], DoNothing = False, DoUpdates = [], UpdateAll = False\<rparr>"

definition AssignmentColumns :: "string list \<Rightarrow> string list" where
  "AssignmentColumns values = values"

datatype rows =
    ActorRows "Actor list"
  | LabelRows "Label list"
  | TransactionRows "Transaction list"

text \<open>
  \<^verbatim>\<open>q.Clauses(c).CreateInBatches(value, batchSize).Error\<close> belongs to gorm and the
  storage engine, so it is a parameter of every Push: from the storage's state, the
  conflict clause, the rows and the batch size it gives the error (if any) and the
  storage's next state. \<^verbatim>\<open>ctx.Storage\<close> holds the storage's state at the call.
\<close>

type_synonym ('db, 'e) CreateInBatches =
  "'db \<Rightarrow> OnConflict \<Rightarrow> rows \<Rightarrow> int \<Rightarrow> 'e option \<times> 'db"

record 'db PushContext =
  Storage :: 'db
  BatchSize :: int
  JustAppend :: bool

text \<open>The zero values of Go's composite literals.\<close>

definition Actor_zero :: Actor where
  "Actor_zero = \<lparr>Actor.Name = '''', Actor.Flags = 0, Actor.Headers = '''',
     Actor.CreatedAt = 0, Actor.UpdatedAt = 0\<rparr>"

definition Label_zero :: Label where
  "Label_zero = \<lparr>Label.Name = '''', ParentName = \<lparr>String = '''', Valid = False\<rparr>,
     Label.Flags = 0, Label.Headers = '''', Label.CreatedAt = 0, Label.UpdatedAt = 0,
     Parent = None\<rparr>"

definition Details_zero :: Details where
  "Details_zero = \<lparr>Details.UUID = None, TransactionUUID = '''', Details.LabelName = '''',
     Details.Amount = 0, Details.Flags = 0, Details.Headers = '''', Details.CreatedAt = 0,
     Details.UpdatedAt = 0, Transaction = None, Details.Label = None\<rparr>"

definition Transaction_zero :: Transaction where
  "Transaction_zero = \<lparr>Transaction.UUID = None, Date = 0, Transaction.Amount = 0,
     Transaction.LabelName = '''', SenderName = '''', ReceiverName = '''',
     Transaction.Flags = 0, Transaction.Headers = '''', Transaction.CreatedAt = 0,
     Transaction.UpdatedAt = 0, Transaction.Label = None, Sender = None, Receiver = None,
     Details = []\<rparr>"

definition heap_zero :: heap where
  "heap_zero = \<lparr>actors = (\<lambda>_. Actor_zero), labels = (\<lambda>_. Label_zero),
     details = (\<lambda>_. Details_zero)\<rparr>"

section \<open>Actors.Push\<close>

definition Actors_Push ::
  "('db, 'e) CreateInBatches \<Rightarrow> Actor list \<Rightarrow> 'db PushContext \<Rightarrow> 'e option \<times> 'db" where
  "Actors_Push create a ctx =
     (let q = (if JustAppend ctx then OnConflict_zero\<lparr>DoNothing := True\<rparr>
               else OnConflict_zero\<lparr>UpdateAll := True\<rparr>)
      in create (Storage ctx) q (ActorRows a) (BatchSize ctx))"

section \<open>Labels.Push\<close>

text \<open>
  \<^verbatim>\<open>distincts\<close> is a Go map; it is kept as an association list with distinct keys,
  in insertion order. The inner loop
  \<^verbatim>\<open>for parent = lb.Parent; parent != nil; parent = parent.Parent\<close>
  follows pointers and need not end, so it is a partial function: \<open>None\<close> is a loop
  that runs forever.
\<close>

partial_function (option) walk_parents ::
  "heap \<Rightarrow> addr option \<Rightarrow> (string \<times> Label) list \<Rightarrow> (string \<times> Label) list option" where
  "walk_parents h parent distincts =
     (case parent of
        None \<Rightarrow> Some distincts
      | Some p \<Rightarrow>
          walk_parents h (Label.Parent (labels h p))
            (if map_of distincts (Label.Name (labels h p)) = None
             then distincts @ [(Label.Name (labels h p), labels h p)]
             else distincts))"

text \<open>
  The outer loop \<^verbatim>\<open>for i, lb := range *l\<close>. The slice is a list of Label values;
  the second component of the result is the slice as the loop leaves it, after the
  writes to \<^verbatim>\<open>(*l)[i].ParentName\<close>. The heap is only read. (A parent pointer into
  the slice's own backing array is a heap object holding the element's value: the loop
  writes \<^verbatim>\<open>ParentName\<close> of element \<open>i\<close> at the end of iteration \<open>i\<close>, when the
  element's name is already a key of the map, so no later copy \<^verbatim>\<open>*parent\<close> reads
  the written field.)
\<close>

fun Labels_Push_distincts ::
  "heap \<Rightarrow> Label list \<Rightarrow> (string \<times> Label) list
     \<Rightarrow> ((string \<times> Label) list \<times> Label list) outcome" where
  "Labels_Push_distincts h [] distincts = Returns (distincts, [])"
| "Labels_Push_distincts h (lb # l) distincts =
     (case walk_parents h (Label.Parent lb) distincts of
        None \<Rightarrow> Diverges
      | Some distincts1 \<Rightarrow>
          (let distincts2 =
                 (if map_of distincts1 (Label.Name lb) = None
                  then distincts1 @ [(Label.Name lb, lb)] else distincts1);
               lb' = (case Label.Parent lb of
                        None \<Rightarrow> lb
                      | Some p \<Rightarrow> lb\<lparr>Label.ParentName :=
                          \<lparr>String = Label.Name (labels h p), Valid = True\<rparr>\<rparr>)
           in bind_outcome (Labels_Push_distincts h l distincts2)
                (\<lambda>(distincts', l'). Returns (distincts', lb' # l'))))"

definition Labels_Push_clause :: "bool \<Rightarrow> OnConflict" where
  "Labels_Push_clause justAppend =
     (if justAppend then OnConflict_zero\<lparr>DoNothing := True\<rparr>
      else OnConflict_zero\<lparr>Columns := [''name''],
             DoUpdates := AssignmentColumns
               [''parent_name'', ''flags'', ''headers'', ''updated_at'']\<rparr>)"

text \<open>
  \<^verbatim>\<open>for _, lb := range distincts { list = append(list, lb) }\<close> visits the map in
  an order Go leaves unspecified: \<open>order\<close> is the order of this call. The result is the
  slice \<^verbatim>\<open>*l\<close> after the call, the error and the storage's next state.
\<close>

definition Labels_Push ::
  "('db, 'e) CreateInBatches \<Rightarrow> ((string \<times> Label) list \<Rightarrow> (string \<times> Label) list)
     \<Rightarrow> heap \<Rightarrow> Label list \<Rightarrow> 'db PushContext
     \<Rightarrow> (Label list \<times> 'e option \<times> 'db) outcome" where
  "Labels_Push create order h l ctx =
     bind_outcome (Labels_Push_distincts h l []) (\<lambda>(distincts, l').
       let list = map snd (order distincts);
           q = Labels_Push_clause (JustAppend ctx)
       in Returns (l', create (Storage ctx) q (LabelRows list) (BatchSize ctx)))"

section \<open>Transactions.Push\<close>

text \<open>The closure \<^verbatim>\<open>catchActor\<close> over \<^verbatim>\<open>seenActors\<close> and \<^verbatim>\<open>everyActor\<close>.\<close>

definition catchActor ::
  "Actor \<Rightarrow> (string \<rightharpoonup> bool) \<times> Actor list \<Rightarrow> (string \<rightharpoonup> bool) \<times> Actor list" where
  "catchActor a st =
     (case st of (seenActors, everyActor) \<Rightarrow>
        if seenActors (Actor.Name a) = None \<and> Actor.Name a \<noteq> ''''
        then (seenActors(Actor.Name a \<mapsto> True), everyActor @ [a])
        else (seenActors, everyActor))"

text \<open>The loop \<^verbatim>\<open>for parent != nil\<close> of \<^verbatim>\<open>catchLabel\<close>.\<close>

partial_function (option) append_parents ::
  "heap \<Rightarrow> addr option \<Rightarrow> Label list \<Rightarrow> Label list option" where
  "append_parents h parent everyLabel =
     (case parent of
        None \<Rightarrow> Some everyLabel
      | Some p \<Rightarrow>
          append_parents h (Label.Parent (labels h p)) (everyLabel @ [labels h p]))"

definition catchLabel ::
  "heap \<Rightarrow> Label \<Rightarrow> (string \<rightharpoonup> bool) \<times> Label list
     \<Rightarrow> ((string \<rightharpoonup> bool) \<times> Label list) outcome" where
  "catchLabel h l st =
     (case st of (seenLabels, everyLabel) \<Rightarrow>
        if seenLabels (Label.Name l) = None \<and> Label.Name l \<noteq> ''''
        then (case append_parents h (Label.Parent l) (everyLabel @ [l]) of
                None \<Rightarrow> Diverges
              | Some everyLabel' \<Rightarrow>
                  Returns (seenLabels(Label.Name l \<mapsto> True), everyLabel'))
        else Returns (seenLabels, everyLabel))"

text \<open>
  \<^verbatim>\<open>for _, ls := range trx.Details\<close>: \<^verbatim>\<open>ls.Label\<close> on a nil element panics.
\<close>

fun catch_details ::
  "heap \<Rightarrow> addr option list \<Rightarrow> (string \<rightharpoonup> bool) \<times> Label list
     \<Rightarrow> ((string \<rightharpoonup> bool) \<times> Label list) outcome" where
  "catch_details h [] st = Returns st"
| "catch_details h (None # ds) st = Panics"
| "catch_details h (Some d # ds) st =
     bind_outcome
       (case Details.Label (details h d) of
          Some p \<Rightarrow> catchLabel h (labels h p) st
        | None \<Rightarrow>
            if Details.LabelName (details h d) \<noteq> ''''
            then catchLabel h
                   (Label_zero\<lparr>Label.Name := Details.LabelName (details h d)\<rparr>) st
            else Returns st)
       (catch_details h ds)"

text \<open>The loop \<^verbatim>\<open>for _, trx := range *t\<close> (lines 305 to 331).\<close>

fun Transactions_Push_extract ::
  "heap \<Rightarrow> Transaction list
     \<Rightarrow> ((string \<rightharpoonup> bool) \<times> Actor list) \<times> ((string \<rightharpoonup> bool) \<times> Label list)
     \<Rightarrow> (((string \<rightharpoonup> bool) \<times> Actor list) \<times> ((string \<rightharpoonup> bool) \<times> Label list)) outcome"
  where
  "Transactions_Push_extract h [] st = Returns st"
| "Transactions_Push_extract h (trx # t) st =
     (case st of (sta, stl) \<Rightarrow>
        let sta1 = (case Receiver trx of
                      Some p \<Rightarrow> catchActor (actors h p) sta
                    | None \<Rightarrow>
                        if ReceiverName trx \<noteq> ''''
                        then catchActor (Actor_zero\<lparr>Actor.Name := ReceiverName trx\<rparr>) sta
                        else sta);
            sta2 = (case Sender trx of
                      Some p \<Rightarrow> catchActor (actors h p) sta1
                    | None \<Rightarrow>
                        if SenderName trx \<noteq> ''''
                        then catchActor (Actor_zero\<lparr>Actor.Name := SenderName trx\<rparr>) sta1
                        else sta1)
        in bind_outcome
             (case Transaction.Label trx of
                Some p \<Rightarrow> catchLabel h (labels h p) stl
              | None \<Rightarrow>
                  if Transaction.LabelName trx \<noteq> ''''
                  then catchLabel h
                         (Label_zero\<lparr>Label.Name := Transaction.LabelName trx\<rparr>) stl
                  else Returns stl)
             (\<lambda>stl1. bind_outcome (catch_details h (Transaction.Details trx) stl1)
                (\<lambda>stl2. Transactions_Push_extract h t (sta2, stl2))))"

definition Transactions_Push_clause :: "bool \<Rightarrow> OnConflict" where
  "Transactions_Push_clause justAppend =
     (if justAppend then OnConflict_zero\<lparr>DoNothing := True\<rparr>
      else OnConflict_zero\<lparr>Columns := [''uuid''],
             DoUpdates := AssignmentColumns
               [''label_name'', ''sender_name'', ''receiver_name'',
                ''flags'', ''headers'', ''updated_at'']\<rparr>)"

text \<open>
  \<^verbatim>\<open>func (t *Transactions) Push\<close>. The storage's state is passed from one write to
  the next.
\<close>

definition Transactions_Push ::
  "('db, 'e) CreateInBatches \<Rightarrow> ((string \<times> Label) list \<Rightarrow> (string \<times> Label) list)
     \<Rightarrow> heap \<Rightarrow> Transaction list \<Rightarrow> 'db PushContext \<Rightarrow> ('e option \<times> 'db) outcome" where
  "Transactions_Push create order h t ctx =
     bind_outcome
       (Transactions_Push_extract h t ((Map.empty, []), (Map.empty, [])))
       (\<lambda>((seenActors, everyActor), (seenLabels, everyLabel)).
          let subctx = ctx\<lparr>JustAppend := True\<rparr>
          in case Actors_Push create everyActor subctx of
               (Some err, db1) \<Rightarrow> Returns (Some err, db1)
             | (None, db1) \<Rightarrow>
                 bind_outcome
                   (Labels_Push create order h everyLabel (subctx\<lparr>Storage := db1\<rparr>))
                   (\<lambda>(everyLabel', r).
                      case r of
                        (Some err, db2) \<Rightarrow> Returns (Some err, db2)
                      | (None, db2) \<Rightarrow>
                          Returns (create db2 (Transactions_Push_clause (JustAppend ctx))
                                     (TransactionRows t) (BatchSize ctx))))"

section \<open>Install and Uninstall\<close>

text \<open>
  \<^verbatim>\<open>var tables\<close>: the four model values, named by their entity.
  \<^verbatim>\<open>db.AutoMigrate\<close> and \<^verbatim>\<open>db.Migrator().DropTable\<close> belong to gorm and are
  parameters.
\<close>

datatype table = ActorTable | LabelTable | TransactionTable | DetailsTable

definition tables :: "table list" where
  "tables = [ActorTable, LabelTable, TransactionTable, DetailsTable]"

fun range_tables ::
  "('db \<Rightarrow> table \<Rightarrow> 'e option \<times> 'db) \<Rightarrow> table list \<Rightarrow> 'db \<Rightarrow> 'e option \<times> 'db" where
  "range_tables f [] db = (None, db)"
| "range_tables f (tb # tbs) db =
     (case f db tb of
        (Some err, db') \<Rightarrow> (Some err, db')
      | (None, db') \<Rightarrow> range_tables f tbs db')"

definition Install :: "('db \<Rightarrow> table \<Rightarrow> 'e option \<times> 'db) \<Rightarrow> 'db \<Rightarrow> 'e option \<times> 'db" where
  "Install AutoMigrate db = range_tables AutoMigrate tables db"

definition Uninstall :: "('db \<Rightarrow> table \<Rightarrow> 'e option \<times> 'db) \<Rightarrow> 'db \<Rightarrow> 'e option \<times> 'db" where
  "Uninstall DropTable db = range_tables DropTable tables db"

section \<open>JSON: ToJson, FromJson and NullString\<close>

text \<open>
  Modelled from the spec: the JSON codec, which is Go's \<^verbatim>\<open>encoding/json\<close> and the
  JSON methods of \<^verbatim>\<open>time.Time\<close> and is not part of the repository. Section 6 of the
  spec has one object per record, under the field names of section 3 (the \<^verbatim>\<open>json\<close>
  tags of the structs), and an array of objects for a collection, with an explicit null
  for a null parent. The bytes of a document are represented by the JSON value they
  denote, so that two serializations are byte-identical when they are the same value:
  the encoder prints a value in one way only. A number is an integer literal
  (\<open>JNumber\<close>), the literal \<^verbatim>\<open>-0\<close> (\<open>JNegZero\<close>) or a literal with a fraction or an
  exponent (\<open>JFraction\<close>, which no field of these structs accepts). Strings are UTF-8
  text, which the codec prints and reads back as it is.
\<close>

datatype json =
    JNull
  | JBool bool
  | JNumber int
  | JNegZero
  | JFraction
  | JString string
  | JArray "json list"
  | JObject "(string \<times> json) list"




































section \<open>Vocabulary of the statements\<close>

text \<open>
  The amounts of the non-nil Details of a Transaction, as the integers they denote.
\<close>

definition detail_amounts :: "heap \<Rightarrow> addr option list \<Rightarrow> int list" where
  "detail_amounts h ds =
     concat (map (\<lambda>p. case p of None \<Rightarrow> []
                          | Some d \<Rightarrow> [sint (Details.Amount (details h d))]) ds)"

text \<open>The Transaction with its UUID kept, or set to \<open>pk\<close> when it was nil.\<close>

definition set_UUID :: "string \<Rightarrow> Transaction \<Rightarrow> Transaction" where
  "set_UUID pk t =
     t\<lparr>Transaction.UUID := Some (case Transaction.UUID t of None \<Rightarrow> pk | Some u \<Rightarrow> u)\<rparr>"

text \<open>
  A storage that records the tables it is asked to migrate or drop, in order, and
  fails where \<open>fails\<close> says, given the calls made so far.
\<close>

definition recording_tables ::
  "(table list \<Rightarrow> table \<Rightarrow> 'e option) \<Rightarrow> table list \<Rightarrow> table
     \<Rightarrow> 'e option \<times> table list" where
  "recording_tables fails log tb = (fails log tb, log @ [tb])"

text \<open>
  A run over \<open>tbs\<close> that started with the record \<open>log\<close> and ended with result \<open>r\<close>
  made its calls in the order of \<open>tbs\<close>, every call but the last succeeded, and either
  all of \<open>tbs\<close> was visited and the result is no error, or the last call failed and the
  result is its error.
\<close>

definition stops_at_first_failure ::
  "(table list \<Rightarrow> table \<Rightarrow> 'e option) \<Rightarrow> table list \<Rightarrow> table list
     \<Rightarrow> 'e option \<times> table list \<Rightarrow> bool" where
  "stops_at_first_failure fails log tbs r =
     (\<exists>n\<le>length tbs.
        snd r = log @ take n tbs \<and>
        (\<forall>i<n - 1. fails (log @ take i tbs) (tbs ! i) = None) \<and>
        (if fst r = None
         then n = length tbs \<and>
              (0 < n \<longrightarrow> fails (log @ take (n - 1) tbs) (tbs ! (n - 1)) = None)
         else 0 < n \<and> fails (log @ take (n - 1) tbs) (tbs ! (n - 1)) = fst r))"

subsection \<open>Concrete inputs\<close>

text \<open>
  Three Details of 9223372036854775807, 9223372036854775807 and 102 units under a
  Transaction of -100: the amounts add up to 18446744073709551716.
\<close>

definition overflow_heap :: heap where
  "overflow_heap = heap_zero\<lparr>details := (\<lambda>a. Details_zero\<lparr>Details.Amount :=
      (if a = 2 then 102 else 9223372036854775807)\<rparr>)\<rparr>"

definition overflow_trx :: Transaction where
  "overflow_trx = Transaction_zero\<lparr>Transaction.Amount := - 100,
      Details := [Some 0, Some 1, Some 2]\<rparr>"

text \<open>Two Details of 50 and 30 units under a Transaction of -100.\<close>

definition short_heap :: heap where
  "short_heap = heap_zero\<lparr>details := (\<lambda>a. Details_zero\<lparr>Details.Amount :=
      (if a = 0 then 50 else 30)\<rparr>)\<rparr>"

definition short_trx :: Transaction where
  "short_trx = Transaction_zero\<lparr>Transaction.Amount := - 100,
      Details := [Some 0, Some 1]\<rparr>"

subsection \<open>Parent chains\<close>

text \<open>
  The addresses met by following \<^verbatim>\<open>Parent\<close> from a pointer until nil, in the order
  they are met: \<open>None\<close> when the chain never reaches nil.
\<close>

partial_function (option) ancestors :: "heap \<Rightarrow> addr option \<Rightarrow> addr list option" where
  "ancestors h parent =
     (case parent of
        None \<Rightarrow> Some []
      | Some p \<Rightarrow>
          Option.bind (ancestors h (Label.Parent (labels h p))) (\<lambda>as. Some (p # as)))"

definition finite_chain :: "heap \<Rightarrow> Label \<Rightarrow> bool" where
  "finite_chain h lb = (ancestors h (Label.Parent lb) \<noteq> None)"

text \<open>The ancestors of a Label, nearest first (nothing when the chain has no end).\<close>

definition chain :: "heap \<Rightarrow> Label \<Rightarrow> Label list" where
  "chain h lb =
     (case ancestors h (Label.Parent lb) of None \<Rightarrow> [] | Some as \<Rightarrow> map (labels h) as)"

text \<open>
  The Labels in the order Labels.Push meets them: for each input Label its ancestors,
  nearest first, then the Label itself.
\<close>

definition encounters :: "heap \<Rightarrow> Label list \<Rightarrow> Label list" where
  "encounters h l = concat (map (\<lambda>lb. chain h lb @ [lb]) l)"

definition put_absent :: "(string \<times> Label) list \<Rightarrow> Label \<Rightarrow> (string \<times> Label) list" where
  "put_absent d x =
     (if map_of d (Label.Name x) = None then d @ [(Label.Name x, x)] else d)"

text \<open>A map whose keys are distinct and are the names of their values.\<close>

definition keyed :: "(string \<times> Label) list \<Rightarrow> bool" where
  "keyed d = (distinct (map fst d) \<and> list_all (\<lambda>(k, v). k = Label.Name v) d)"

text \<open>A Label with its ParentName set from its parent object, if it has one.\<close>

definition with_parent_name :: "heap \<Rightarrow> Label \<Rightarrow> Label" where
  "with_parent_name h lb =
     (case Label.Parent lb of
        None \<Rightarrow> lb
      | Some p \<Rightarrow>
          lb\<lparr>Label.ParentName := \<lparr>String = Label.Name (labels h p), Valid = True\<rparr>\<rparr>)"

text \<open>\<open>x\<close> is the first element of \<open>xs\<close> that bears its name.\<close>

definition first_with_name :: "('a \<Rightarrow> string) \<Rightarrow> 'a list \<Rightarrow> 'a \<Rightarrow> bool" where
  "first_with_name nm xs x = (find (\<lambda>y. nm y = nm x) xs = Some x)"

definition first_named :: "('a \<Rightarrow> string) \<Rightarrow> 'a list \<Rightarrow> 'a \<Rightarrow> bool" where
  "first_named nm xs x = (nm x \<noteq> '''' \<and> first_with_name nm xs x)"

subsection \<open>The references of a batch\<close>

text \<open>
  What a Transaction or a Detail refers to: the embedded object when the pointer is
  set, else an entity with only the bare name when that is not empty, else nothing.
\<close>

definition actor_ref :: "heap \<Rightarrow> addr option \<Rightarrow> string \<Rightarrow> Actor list" where
  "actor_ref h p n =
     (case p of Some a \<Rightarrow> [actors h a]
      | None \<Rightarrow> if n \<noteq> '''' then [Actor_zero\<lparr>Actor.Name := n\<rparr>] else [])"

definition label_ref :: "heap \<Rightarrow> addr option \<Rightarrow> string \<Rightarrow> Label list" where
  "label_ref h p n =
     (case p of Some a \<Rightarrow> [labels h a]
      | None \<Rightarrow> if n \<noteq> '''' then [Label_zero\<lparr>Label.Name := n\<rparr>] else [])"

definition detail_label_refs :: "heap \<Rightarrow> addr option list \<Rightarrow> Label list" where
  "detail_label_refs h ds =
     concat (map (\<lambda>q. case q of None \<Rightarrow> []
                    | Some d \<Rightarrow> label_ref h (Details.Label (details h d))
                                 (Details.LabelName (details h d))) ds)"

text \<open>The references of a batch in the order the loop reads them.\<close>

definition actor_refs :: "heap \<Rightarrow> Transaction list \<Rightarrow> Actor list" where
  "actor_refs h t =
     concat (map (\<lambda>trx. actor_ref h (Receiver trx) (ReceiverName trx) @
                        actor_ref h (Sender trx) (SenderName trx)) t)"

definition label_refs :: "heap \<Rightarrow> Transaction list \<Rightarrow> Label list" where
  "label_refs h t =
     concat (map (\<lambda>trx. label_ref h (Transaction.Label trx) (Transaction.LabelName trx) @
                        detail_label_refs h (Transaction.Details trx)) t)"

definition no_nil_details :: "Transaction list \<Rightarrow> bool" where
  "no_nil_details t =
     list_all (\<lambda>trx. list_all (\<lambda>q. q \<noteq> None) (Transaction.Details trx)) t"

text \<open>
  Keeping the first occurrence of every non-empty name, with the names seen so far.
\<close>

definition capture ::
  "('a \<Rightarrow> string) \<Rightarrow> (string \<rightharpoonup> bool) \<times> 'a list \<Rightarrow> 'a
     \<Rightarrow> (string \<rightharpoonup> bool) \<times> 'a list" where
  "capture nm st x =
     (if fst st (nm x) = None \<and> nm x \<noteq> ''''
      then ((fst st)(nm x \<mapsto> True), snd st @ [x])
      else st)"

definition lcatch ::
  "heap \<Rightarrow> (string \<rightharpoonup> bool) \<times> Label list \<Rightarrow> Label
     \<Rightarrow> (string \<rightharpoonup> bool) \<times> Label list" where
  "lcatch h st l =
     (if fst st (Label.Name l) = None \<and> Label.Name l \<noteq> ''''
      then ((fst st)(Label.Name l \<mapsto> True), snd st @ l # chain h l)
      else st)"

definition captured_inv ::
  "('a \<Rightarrow> string) \<Rightarrow> (string \<rightharpoonup> bool) \<Rightarrow> 'a list \<Rightarrow> bool" where
  "captured_inv nm seen C =
     (dom seen = nm ` set C \<and> distinct (map nm C) \<and> '''' \<notin> nm ` set C)"

text \<open>
  What the extraction phase of Transactions.Push hands to the writes:
  \<^verbatim>\<open>everyActor\<close> and \<^verbatim>\<open>everyLabel\<close>.
\<close>

definition extracted :: "heap \<Rightarrow> Transaction list \<Rightarrow> (Actor list \<times> Label list) outcome" where
  "extracted h t =
     bind_outcome (Transactions_Push_extract h t ((Map.empty, []), (Map.empty, [])))
       (\<lambda>((seenActors, everyActor), (seenLabels, everyLabel)).
          Returns (everyActor, everyLabel))"

subsection \<open>A storage that records its writes\<close>

text \<open>
  Each call of \<^verbatim>\<open>CreateInBatches\<close> is recorded with its conflict clause, rows and
  batch size, and fails where \<open>fails\<close> says, given the writes made so far.
\<close>

definition recording ::
  "((OnConflict \<times> rows \<times> int) list \<Rightarrow> OnConflict \<times> rows \<times> int \<Rightarrow> 'e option)
     \<Rightarrow> ((OnConflict \<times> rows \<times> int) list, 'e) CreateInBatches" where
  "recording fails log q rs bs = (fails log (q, rs, bs), log @ [(q, rs, bs)])"

subsection \<open>The storage engine on a conflict\<close>

text \<open>
  Modelled from the spec: the storage engine's handling of a primary-key conflict,
  which gorm and the database do and the repository does not contain. Section 4.4 of
  the spec: in AppendOnly mode the conflicting row is skipped entirely (no field is
  modified); in Replace mode the declared mutable columns are overwritten, for Actors
  all non-key columns. A row gives each column its value; \<open>key\<close> lists the
  primary-key columns; the result is the stored row after the conflict.
\<close>

definition on_conflict ::
  "OnConflict \<Rightarrow> string list \<Rightarrow> (string \<Rightarrow> 'v) \<Rightarrow> (string \<Rightarrow> 'v) \<Rightarrow> string \<Rightarrow> 'v" where
  "on_conflict q key stored incoming c =
     (if DoNothing q then stored c
      else if UpdateAll q then (if c \<in> set key then stored c else incoming c)
      else if c \<in> set (DoUpdates q) then incoming c
      else stored c)"

subsection \<open>More concrete inputs\<close>

definition tree_heap :: heap where
  "tree_heap = heap_zero\<lparr>labels := (\<lambda>a.
      if a = 1 then Label_zero\<lparr>Label.Name := ''1'', Parent := Some 0\<rparr>
      else Label_zero\<lparr>Label.Name := ''0''\<rparr>)\<rparr>"

definition tree_labels :: "Label list" where
  "tree_labels = [Label_zero\<lparr>Label.Name := ''2'', Parent := Some 1\<rparr>,
                  Label_zero\<lparr>Label.Name := ''10''\<rparr>]"

definition loop_heap :: heap where
  "loop_heap = heap_zero\<lparr>labels := (\<lambda>a. Label_zero\<lparr>Label.Name := ''loop'', Parent := Some 0\<rparr>)\<rparr>"

definition loop_labels :: "Label list" where
  "loop_labels = [Label_zero\<lparr>Label.Name := ''a'', Parent := Some 0\<rparr>]"

text \<open>
  A Transaction labelled A with one Detail labelled B, where A and B have the same
  parent P.
\<close>

definition shared_heap :: heap where
  "shared_heap = heap_zero\<lparr>
     labels := (\<lambda>a. if a = 0 then Label_zero\<lparr>Label.Name := ''A'', Parent := Some 2\<rparr>
                    else if a = 1 then Label_zero\<lparr>Label.Name := ''B'', Parent := Some 2\<rparr>
                    else Label_zero\<lparr>Label.Name := ''P''\<rparr>),
     details := (\<lambda>a. Details_zero\<lparr>Details.Label := Some 1\<rparr>)\<rparr>"

definition shared_batch :: "Transaction list" where
  "shared_batch = [Transaction_zero\<lparr>Transaction.Label := Some 0, Details := [Some 0]\<rparr>]"

text \<open>A Transaction labelled A, whose parent object has the empty name.\<close>

definition unnamed_heap :: heap where
  "unnamed_heap = heap_zero\<lparr>
     labels := (\<lambda>a. if a = 0 then Label_zero\<lparr>Label.Name := ''A'', Parent := Some 1\<rparr>
                    else Label_zero)\<rparr>"

definition unnamed_batch :: "Transaction list" where
  "unnamed_batch = [Transaction_zero\<lparr>Transaction.Label := Some 0\<rparr>]"

text \<open>A Transaction given by bare names only, without a sender.\<close>

definition bare_batch :: "Transaction list" where
  "bare_batch = [Transaction_zero\<lparr>Transaction.Amount := 5000,
     Transaction.LabelName := ''Transfer'', ReceiverName := ''Alexandru''\<rparr>]"

text \<open>A batch whose only sender has the empty name and whose label name is empty.\<close>

definition nameless_batch :: "Transaction list" where
  "nameless_batch = [Transaction_zero\<lparr>Sender := Some 0, ReceiverName := ''Magazin''\<rparr>]"

subsection \<open>The JSON round trip\<close>





section \<open>The validation hooks\<close>

lemma detail_amounts_simps [simp]:
  "detail_amounts h [] = []"
  "detail_amounts h (None # ds) = detail_amounts h ds"
  "detail_amounts h (Some d # ds) =
     sint (Details.Amount (details h d)) # detail_amounts h ds"
  by (simp_all add: detail_amounts_def)

lemma sum_details_total:
  "list_all (\<lambda>p. p \<noteq> None) ds \<Longrightarrow>
   sum_details h ds acc = Returns (acc + word_of_int (sum_list (detail_amounts h ds)))"
proof (induction ds arbitrary: acc)
  case Nil
  then show ?case by simp
next
  case (Cons p ds)
  then obtain d where p: "p = Some d" by auto
  from Cons show ?case by (simp add: p add.assoc)
qed

lemma sum_details_nil:
  "\<not> list_all (\<lambda>p. p \<noteq> None) ds \<Longrightarrow> sum_details h ds acc = Panics"
  by (induction h ds acc rule: sum_details.induct) auto

text \<open>A nil element of \<^verbatim>\<open>t.Details\<close> makes the hook panic.\<close>

lemma Transaction_BeforeCreate_nil_detail:
  "\<not> list_all (\<lambda>p. p \<noteq> None) (Transaction.Details t) \<Longrightarrow>
   Transaction_BeforeCreate h pk t = Panics"
proof -
  assume nil: "\<not> list_all (\<lambda>p. p \<noteq> None) (Transaction.Details t)"
  then have ne: "Transaction.Details t \<noteq> []" by auto
  show ?thesis
    by (cases "Transaction.UUID t")
       (simp_all add: Transaction_BeforeCreate_def Let_def ne sum_details_nil [OF nil])
qed

lemma abs_word:
  "(if (a::64 word) <s 0 then a * (- 1) else a) = word_of_int \<bar>sint a\<bar>"
  by (simp add: word_sless_alt)

lemma word_eq_cong:
  "((word_of_int a :: 64 word) = word_of_int b) = (a mod 2 ^ 64 = b mod 2 ^ 64)"
  by (simp add: word_of_int_eq_iff take_bit_eq_mod)

lemma mod_eq_in_range:
  fixes a s m :: int
  assumes "0 \<le> a" "2 * a \<le> m" "- m < 2 * s" "2 * s < m"
    and "s mod m = a mod m"
  shows "s = a"
proof -
  from assms(5) have "m dvd (a - s)"
    by (metis mod_eq_dvd_iff)
  then obtain k where k: "a - s = m * k" ..
  have m: "0 < m" using assms by linarith
  have "- m < a - s" "a - s < m" using assms by linarith+
  with k have "m * (- 1) < m * k" "m * k < m * 1" by simp_all
  with m have "- 1 < k" "k < 1" by (simp_all only: mult_less_cancel_left_pos)
  then have "k = 0" by linarith
  with k show ?thesis by simp
qed

text \<open>
  Claim C1, as the code has it. For every Transaction whose Details are all non-nil,
  \<^verbatim>\<open>Transaction.BeforeCreate\<close> returns, with the UUID assigned when it was absent.
  It returns the error "transaction details don't add up", citing \<open>|Amount|\<close> and the
  sum as 64-bit values, exactly when the Detail set is non-empty and the sum of the
  Detail amounts differs from \<open>|Amount|\<close> modulo \<open>2^64\<close> (both are computed in wrapping
  \<^verbatim>\<open>int64\<close> arithmetic); otherwise, and always for an empty Detail set, it returns
  no error. Whenever the sum of the amounts lies strictly between \<open>-2^63\<close> and
  \<open>2^63\<close>, differing modulo \<open>2^64\<close> is differing.
\<close>

theorem C1_details_sum_check:
  assumes "list_all (\<lambda>p. p \<noteq> None) (Transaction.Details t)"
  shows "Transaction_BeforeCreate h pk t =
           Returns (set_UUID pk t,
             if Transaction.Details t \<noteq> [] \<and>
                sum_list (detail_amounts h (Transaction.Details t)) mod 2 ^ 64
                  \<noteq> \<bar>sint (Transaction.Amount t)\<bar> mod 2 ^ 64
             then Some (DetailsDontAddUp (word_of_int \<bar>sint (Transaction.Amount t)\<bar>)
                          (word_of_int (sum_list (detail_amounts h (Transaction.Details t)))))
             else None) \<and>
         (- (2 ^ 63) < sum_list (detail_amounts h (Transaction.Details t)) \<and>
          sum_list (detail_amounts h (Transaction.Details t)) < 2 ^ 63 \<longrightarrow>
            (sum_list (detail_amounts h (Transaction.Details t)) mod 2 ^ 64
               \<noteq> \<bar>sint (Transaction.Amount t)\<bar> mod 2 ^ 64) =
            (sum_list (detail_amounts h (Transaction.Details t))
               \<noteq> \<bar>sint (Transaction.Amount t)\<bar>))"
proof
  let ?S = "sum_list (detail_amounts h (Transaction.Details t))"
  let ?t = "if Transaction.UUID t = None then t\<lparr>Transaction.UUID := Some pk\<rparr> else t"
  have t': "?t = set_UUID pk t"
    by (cases "Transaction.UUID t") (simp_all add: set_UUID_def)
  have ds: "Transaction.Details (set_UUID pk t) = Transaction.Details t"
    and am: "Transaction.Amount (set_UUID pk t) = Transaction.Amount t"
    by (simp_all add: set_UUID_def)
  have sm: "sum_details h (Transaction.Details t) 0 = Returns (word_of_int ?S)"
    using sum_details_total [OF assms, of h 0] by simp
  show "Transaction_BeforeCreate h pk t =
           Returns (set_UUID pk t,
             if Transaction.Details t \<noteq> [] \<and>
                ?S mod 2 ^ 64 \<noteq> \<bar>sint (Transaction.Amount t)\<bar> mod 2 ^ 64
             then Some (DetailsDontAddUp (word_of_int \<bar>sint (Transaction.Amount t)\<bar>)
                          (word_of_int ?S))
             else None)"
    unfolding Transaction_BeforeCreate_def Let_def t' ds am sm abs_word
    by (simp add: word_eq_cong)
next
  let ?S = "sum_list (detail_amounts h (Transaction.Details t))"
  let ?A = "sint (Transaction.Amount t)"
  have A: "0 \<le> \<bar>?A\<bar>" "2 * \<bar>?A\<bar> \<le> 2 ^ 64"
    using sint_ge [of "Transaction.Amount t"] sint_lt [of "Transaction.Amount t"]
    by simp_all
  show "- (2 ^ 63) < ?S \<and> ?S < 2 ^ 63 \<longrightarrow>
        (?S mod 2 ^ 64 \<noteq> \<bar>?A\<bar> mod 2 ^ 64) = (?S \<noteq> \<bar>?A\<bar>)"
  proof
    assume "- (2 ^ 63) < ?S \<and> ?S < 2 ^ 63"
    then have S: "- (2 ^ 64) < 2 * ?S" "2 * ?S < 2 ^ 64" by simp_all
    have "?S mod 2 ^ 64 = \<bar>?A\<bar> mod 2 ^ 64 \<Longrightarrow> ?S = \<bar>?A\<bar>"
      by (rule mod_eq_in_range [OF A S])
    then show "(?S mod 2 ^ 64 \<noteq> \<bar>?A\<bar> mod 2 ^ 64) = (?S \<noteq> \<bar>?A\<bar>)" by auto
  qed
qed

text \<open>
  At a Transaction of -100 with Details of 50 and 30 the hook reports the mismatch,
  expected 100 but got 80.
\<close>

theorem C1_details_sum_check_witness:
  "list_all (\<lambda>p. p \<noteq> None) (Transaction.Details short_trx) \<and>
   sum_list (detail_amounts short_heap (Transaction.Details short_trx)) = 80 \<and>
   \<bar>sint (Transaction.Amount short_trx)\<bar> = 100 \<and>
   Transaction_BeforeCreate short_heap ''pk'' short_trx =
     Returns (short_trx\<lparr>Transaction.UUID := Some ''pk''\<rparr>, Some (DetailsDontAddUp 100 80))"
proof -
  have nn: "list_all (\<lambda>p. p \<noteq> None) (Transaction.Details short_trx)"
    by (simp add: short_trx_def)
  show ?thesis
    using nn C1_details_sum_check [OF nn, of short_heap "''pk''"]
    by (simp add: short_trx_def short_heap_def heap_zero_def Details_zero_def
          Transaction_zero_def set_UUID_def)
qed

text \<open>
  The claim as it is written fails where the sum overflows: the amounts
  9223372036854775807, 9223372036854775807 and 102 do not add up to 100, and the
  hook accepts them under a Transaction of -100.
\<close>

theorem C1_overflow_counterexample:
  "Transaction.Details overflow_trx \<noteq> [] \<and>
   list_all (\<lambda>p. p \<noteq> None) (Transaction.Details overflow_trx) \<and>
   sum_list (detail_amounts overflow_heap (Transaction.Details overflow_trx))
     \<noteq> \<bar>sint (Transaction.Amount overflow_trx)\<bar> \<and>
   Transaction_BeforeCreate overflow_heap ''pk'' overflow_trx
     = Returns (overflow_trx\<lparr>Transaction.UUID := Some ''pk''\<rparr>, None)"
  by (simp add: overflow_trx_def overflow_heap_def Transaction_zero_def Details_zero_def
        heap_zero_def Transaction_BeforeCreate_def Let_def word_sless_alt)

text \<open>
  Claim C6. \<^verbatim>\<open>Details.BeforeCreate\<close> returns the negative-amount error exactly when
  the Amount is negative, whatever else the record or its Transaction holds, and no
  error otherwise; in both cases the record leaves the hook with its UUID, the fresh
  one when it had none, so the UUID is assigned before the amount is checked.
\<close>

theorem C6_details_before_create:
  "snd (Details_BeforeCreate pk d) =
     (if sint (Details.Amount d) < 0 then Some NegativeDetailsAmount else None) \<and>
   fst (Details_BeforeCreate pk d) =
     d\<lparr>Details.UUID := Some (case Details.UUID d of None \<Rightarrow> pk | Some u \<Rightarrow> u)\<rparr>"
  by (auto simp: Details_BeforeCreate_def Let_def word_sless_alt split: option.splits)

theorem C6_details_before_create_witness:
  "Details_BeforeCreate ''pk'' (Details_zero\<lparr>Details.Amount := - 50\<rparr>) =
     (Details_zero\<lparr>Details.Amount := - 50, Details.UUID := Some ''pk''\<rparr>,
      Some NegativeDetailsAmount)"
  using C6_details_before_create [of "''pk''" "Details_zero\<lparr>Details.Amount := - 50\<rparr>"]
  by (simp add: Details_zero_def prod_eq_iff)

text \<open>
  Claim C7. \<^verbatim>\<open>Actor.BeforeCreate\<close> and \<^verbatim>\<open>Label.BeforeCreate\<close> return the
  empty-name error exactly when the name is the empty string, and no error exactly
  when it is not.
\<close>

theorem C7_empty_name_rejected:
  "(Actor_BeforeCreate a = Some EmptyActorName) = (Actor.Name a = '''') \<and>
   (Actor_BeforeCreate a = None) = (Actor.Name a \<noteq> '''') \<and>
   (snd (Label_BeforeCreate h lb) = Some EmptyLabelName) = (Label.Name lb = '''') \<and>
   (snd (Label_BeforeCreate h lb) = None) = (Label.Name lb \<noteq> '''')"
  by (simp add: Actor_BeforeCreate_def Label_BeforeCreate_def split: option.splits)

theorem C7_empty_name_rejected_witness:
  "Actor_BeforeCreate Actor_zero = Some EmptyActorName \<and>
   snd (Label_BeforeCreate heap_zero (Label_zero\<lparr>Label.Name := ''Alimente''\<rparr>)) = None"
  using C7_empty_name_rejected
          [of Actor_zero heap_zero "Label_zero\<lparr>Label.Name := ''Alimente''\<rparr>"]
  by (simp add: Actor_zero_def Label_zero_def)

section \<open>Install and Uninstall\<close>

lemma range_tables_recording:
  "stops_at_first_failure fails log tbs (range_tables (recording_tables fails) tbs log)"
proof (induction tbs arbitrary: log)
  case Nil
  show ?case by (simp add: stops_at_first_failure_def)
next
  case (Cons tb tbs)
  show ?case
  proof (cases "fails log tb")
    case (Some e)
    then have "range_tables (recording_tables fails) (tb # tbs) log = (Some e, log @ [tb])"
      by (simp add: recording_tables_def)
    moreover have "stops_at_first_failure fails log (tb # tbs) (Some e, log @ [tb])"
      unfolding stops_at_first_failure_def
      by (rule exI [of _ 1]) (simp add: Some)
    ultimately show ?thesis by simp
  next
    case None
    let ?r = "range_tables (recording_tables fails) tbs (log @ [tb])"
    have eq: "range_tables (recording_tables fails) (tb # tbs) log = ?r"
      by (simp add: recording_tables_def None)
    from Cons.IH [of "log @ [tb]"] obtain n where n: "n \<le> length tbs"
      "snd ?r = (log @ [tb]) @ take n tbs"
      "\<forall>i<n - 1. fails ((log @ [tb]) @ take i tbs) (tbs ! i) = None"
      "if fst ?r = None
         then n = length tbs \<and>
              (0 < n \<longrightarrow> fails ((log @ [tb]) @ take (n - 1) tbs) (tbs ! (n - 1)) = None)
         else 0 < n \<and> fails ((log @ [tb]) @ take (n - 1) tbs) (tbs ! (n - 1)) = fst ?r"
      unfolding stops_at_first_failure_def by blast
    have pre: "\<forall>i<Suc n - 1. fails (log @ take i (tb # tbs)) ((tb # tbs) ! i) = None"
    proof (intro allI impI)
      fix i assume i: "i < Suc n - 1"
      show "fails (log @ take i (tb # tbs)) ((tb # tbs) ! i) = None"
      proof (cases i)
        case 0
        then show ?thesis by (simp add: None)
      next
        case (Suc j)
        with i have "j < n - 1" by simp
        with n(3) have "fails ((log @ [tb]) @ take j tbs) (tbs ! j) = None" by blast
        then show ?thesis by (simp add: Suc)
      qed
    qed
    have last: "0 < n \<Longrightarrow>
        fails (log @ take (Suc n - 1) (tb # tbs)) ((tb # tbs) ! (Suc n - 1))
        = fails ((log @ [tb]) @ take (n - 1) tbs) (tbs ! (n - 1))"
      by (cases n) simp_all
    have "stops_at_first_failure fails log (tb # tbs) ?r"
      unfolding stops_at_first_failure_def
    proof (rule exI [of _ "Suc n"], intro conjI)
      show "Suc n \<le> length (tb # tbs)" using n(1) by simp
      show "snd ?r = log @ take (Suc n) (tb # tbs)" using n(2) by simp
      show "\<forall>i<Suc n - 1. fails (log @ take i (tb # tbs)) ((tb # tbs) ! i) = None"
        by (rule pre)
      show "if fst ?r = None
        then Suc n = length (tb # tbs) \<and>
             (0 < Suc n \<longrightarrow>
                fails (log @ take (Suc n - 1) (tb # tbs)) ((tb # tbs) ! (Suc n - 1)) = None)
        else 0 < Suc n \<and>
             fails (log @ take (Suc n - 1) (tb # tbs)) ((tb # tbs) ! (Suc n - 1)) = fst ?r"
      proof (cases "fst ?r = None")
        case True
        with n(4) have a: "n = length tbs"
          "0 < n \<longrightarrow> fails ((log @ [tb]) @ take (n - 1) tbs) (tbs ! (n - 1)) = None"
          by auto
        show ?thesis
        proof (cases "0 < n")
          case True
          with a last show ?thesis using \<open>fst ?r = None\<close> by simp
        next
          case False
          with a have "tbs = []" "n = 0" by simp_all
          then show ?thesis using \<open>fst ?r = None\<close> None by simp
        qed
      next
        case False
        with n(4) have a: "0 < n"
          "fails ((log @ [tb]) @ take (n - 1) tbs) (tbs ! (n - 1)) = fst ?r"
          by auto
        with last [OF a(1)] False show ?thesis by (simp del: not_None_eq)
      qed
    qed
    with eq show ?thesis by simp
  qed
qed

text \<open>
  Claim C9, as the code has it. Install migrates and Uninstall drops the four tables
  in one and the same order, Actor, Label, Transaction, Details (Uninstall does not
  reverse it); in both the first failure ends the run, no later table is touched, and
  the error of the failing call is the result.
\<close>

theorem C9_install_uninstall_order:
  "stops_at_first_failure fails log tables (Install (recording_tables fails) log) \<and>
   stops_at_first_failure fails log tables (Uninstall (recording_tables fails) log) \<and>
   tables = [ActorTable, LabelTable, TransactionTable, DetailsTable]"
  by (simp add: Install_def Uninstall_def range_tables_recording) (simp add: tables_def)

text \<open>Where the Label table cannot be handled, the run ends after two calls.\<close>

theorem C9_install_uninstall_order_witness:
  "stops_at_first_failure (\<lambda>log tb. if tb = LabelTable then Some ''boom'' else None) []
     [ActorTable, LabelTable, TransactionTable, DetailsTable]
     (Some ''boom'', [ActorTable, LabelTable])"
  using C9_install_uninstall_order
          [of "\<lambda>log tb. if tb = LabelTable then Some ''boom'' else None" "[]"]
  by (simp add: Install_def Uninstall_def tables_def recording_tables_def)

text \<open>
  On a storage where nothing fails, Uninstall drops Actor first and Details last,
  which is not the reverse of the order of Install.
\<close>

theorem C9_uninstall_order_counterexample:
  "snd (Install (recording_tables (\<lambda>log tb. (None :: string option))) [])
     = [ActorTable, LabelTable, TransactionTable, DetailsTable] \<and>
   snd (Uninstall (recording_tables (\<lambda>log tb. (None :: string option))) [])
     = [ActorTable, LabelTable, TransactionTable, DetailsTable] \<and>
   snd (Uninstall (recording_tables (\<lambda>log tb. (None :: string option))) [])
     \<noteq> rev (snd (Install (recording_tables (\<lambda>log tb. (None :: string option))) []))"
  by (simp add: Install_def Uninstall_def tables_def recording_tables_def)

section \<open>Parent chains and the two pointer loops\<close>

lemma ancestors_None [simp]: "ancestors h None = Some []"
  by (simp add: ancestors.simps)

lemma ancestors_Some:
  "ancestors h (Some p) = map_option ((#) p) (ancestors h (Label.Parent (labels h p)))"
  by (subst ancestors.simps) (simp add: map_option_case split: option.splits bind_splits)

lemma ancestors_Nil: "ancestors h p = Some [] \<Longrightarrow> p = None"
  by (cases p) (auto simp: ancestors_Some)

lemma ancestors_Cons:
  "ancestors h p = Some (a # as) \<Longrightarrow> p = Some a \<and> ancestors h (Label.Parent (labels h a)) = Some as"
  by (cases p) (auto simp: ancestors_Some)

lemma walk_parents_ancestors:
  "ancestors h p = Some as \<Longrightarrow>
   walk_parents h p d = Some (foldl put_absent d (map (labels h) as))"
proof (induction as arbitrary: p d)
  case Nil
  then have "p = None" by (rule ancestors_Nil)
  then show ?case by (simp add: walk_parents.simps)
next
  case (Cons a as)
  from ancestors_Cons [OF Cons.prems]
  have p: "p = Some a" and rest: "ancestors h (Label.Parent (labels h a)) = Some as"
    by simp_all
  have step: "(if map_of d (Label.Name (labels h a)) = None
               then d @ [(Label.Name (labels h a), labels h a)] else d)
              = put_absent d (labels h a)"
    by (simp add: put_absent_def)
  show ?case
    by (subst walk_parents.simps) (simp add: p step Cons.IH [OF rest])
qed

lemma walk_parents_returns:
  assumes "walk_parents h p d = Some r"
  shows "ancestors h p \<noteq> None"
proof (rule walk_parents.raw_induct [OF _ assms, where P = "\<lambda>h p d r. ancestors h p \<noteq> None"])
  fix f :: "heap \<Rightarrow> addr option \<Rightarrow> (string \<times> Label) list \<Rightarrow> (string \<times> Label) list option"
  fix h p d r
  assume IH: "\<And>h p d r. f h p d = Some r \<Longrightarrow> ancestors h p \<noteq> None"
    and eq: "(case p of None \<Rightarrow> Some d
              | Some a \<Rightarrow> f h (Label.Parent (labels h a))
                  (if map_of d (Label.Name (labels h a)) = None
                   then d @ [(Label.Name (labels h a), labels h a)] else d)) = Some r"
  show "ancestors h p \<noteq> None"
  proof (cases p)
    case None
    then show ?thesis by simp
  next
    case (Some a)
    with eq obtain d' where "f h (Label.Parent (labels h a)) d' = Some r" by auto
    from IH [OF this] show ?thesis by (auto simp: Some ancestors_Some)
  qed
qed

lemma walk_parents_diverges:
  "ancestors h p = None \<Longrightarrow> walk_parents h p d = None"
  using walk_parents_returns [of h p d] by (cases "walk_parents h p d") auto

lemma append_parents_ancestors:
  "ancestors h p = Some as \<Longrightarrow>
   append_parents h p ev = Some (ev @ map (labels h) as)"
proof (induction as arbitrary: p ev)
  case Nil
  then have "p = None" by (rule ancestors_Nil)
  then show ?case by (simp add: append_parents.simps)
next
  case (Cons a as)
  from ancestors_Cons [OF Cons.prems]
  have p: "p = Some a" and rest: "ancestors h (Label.Parent (labels h a)) = Some as"
    by simp_all
  show ?case
    by (subst append_parents.simps) (simp add: p Cons.IH [OF rest])
qed

lemma append_parents_returns:
  assumes "append_parents h p ev = Some r"
  shows "ancestors h p \<noteq> None"
proof (rule append_parents.raw_induct [OF _ assms, where P = "\<lambda>h p ev r. ancestors h p \<noteq> None"])
  fix f :: "heap \<Rightarrow> addr option \<Rightarrow> Label list \<Rightarrow> Label list option"
  fix h p ev r
  assume IH: "\<And>h p ev r. f h p ev = Some r \<Longrightarrow> ancestors h p \<noteq> None"
    and eq: "(case p of None \<Rightarrow> Some ev
              | Some a \<Rightarrow> f h (Label.Parent (labels h a)) (ev @ [labels h a])) = Some r"
  show "ancestors h p \<noteq> None"
  proof (cases p)
    case None
    then show ?thesis by simp
  next
    case (Some a)
    with eq have "f h (Label.Parent (labels h a)) (ev @ [labels h a]) = Some r" by simp
    from IH [OF this] show ?thesis by (auto simp: Some ancestors_Some)
  qed
qed

lemma append_parents_diverges:
  "ancestors h p = None \<Longrightarrow> append_parents h p ev = None"
  using append_parents_returns [of h p ev] by (cases "append_parents h p ev") auto

lemma ancestors_self_loop:
  assumes "Label.Parent (labels h a) = Some a"
  shows "ancestors h (Some a) = None"
proof (rule ccontr)
  assume "ancestors h (Some a) \<noteq> None"
  then obtain xs where xs: "ancestors h (Some a) = Some xs" by auto
  have "Some a = Some a \<longrightarrow> h = h \<longrightarrow> False"
  proof (rule ancestors.raw_induct [OF _ xs, where P = "\<lambda>h' p ys. p = Some a \<longrightarrow> h' = h \<longrightarrow> False"])
    fix f :: "heap \<Rightarrow> addr option \<Rightarrow> addr list option"
    fix h' p ys
    assume IH: "\<And>h' p ys. f h' p = Some ys \<Longrightarrow> p = Some a \<longrightarrow> h' = h \<longrightarrow> False"
      and eq: "(case p of None \<Rightarrow> Some []
                | Some q \<Rightarrow> Option.bind (f h' (Label.Parent (labels h' q)))
                    (\<lambda>as. Some (q # as))) = Some ys"
    show "p = Some a \<longrightarrow> h' = h \<longrightarrow> False"
    proof (intro impI)
      assume p: "p = Some a" and h': "h' = h"
      with eq assms obtain zs where "f h (Some a) = Some zs"
        by (auto split: bind_splits)
      from IH [OF this] show False by simp
    qed
  qed
  then show False by simp
qed

section \<open>The flattening of Labels.Push\<close>

lemma keyed_Nil [simp]: "keyed []"
  by (simp add: keyed_def)

lemma keyed_put_absent: "keyed d \<Longrightarrow> keyed (put_absent d x)"
  by (auto simp: keyed_def put_absent_def map_of_eq_None_iff)

lemma keyed_foldl: "keyed d \<Longrightarrow> keyed (foldl put_absent d xs)"
  by (induction xs arbitrary: d) (simp_all add: keyed_put_absent)

lemma map_of_put_absent:
  "map_of (put_absent d x) n =
     (case map_of d n of Some v \<Rightarrow> Some v
      | None \<Rightarrow> if Label.Name x = n then Some x else None)"
  by (auto simp: put_absent_def map_add_def split: option.splits)

lemma map_of_foldl_put_absent:
  "map_of (foldl put_absent d xs) n =
     (case map_of d n of Some v \<Rightarrow> Some v
      | None \<Rightarrow> find (\<lambda>x. Label.Name x = n) xs)"
proof (induction xs arbitrary: d)
  case Nil
  then show ?case by (simp split: option.splits)
next
  case (Cons x xs)
  show ?case
    by (simp add: Cons.IH map_of_put_absent split: option.splits)
qed

lemma keyed_names: "keyed d \<Longrightarrow> map Label.Name (map snd d) = map fst d"
  by (induction d) (auto simp: keyed_def)

lemma keyed_mem:
  assumes "keyed d"
  shows "x \<in> set (map snd d) \<longleftrightarrow> map_of d (Label.Name x) = Some x"
proof
  assume "x \<in> set (map snd d)"
  then obtain k where k: "(k, x) \<in> set d" by auto
  with assms have "k = Label.Name x" by (auto simp: keyed_def list_all_iff)
  with k assms show "map_of d (Label.Name x) = Some x" by (simp add: keyed_def)
next
  assume "map_of d (Label.Name x) = Some x"
  then have "(Label.Name x, x) \<in> set d" by (rule map_of_SomeD)
  then show "x \<in> set (map snd d)" by force
qed

lemma Labels_Push_distincts_returns:
  "list_all (finite_chain h) l \<Longrightarrow>
   Labels_Push_distincts h l d =
     Returns (foldl put_absent d (encounters h l), map (with_parent_name h) l)"
proof (induction l arbitrary: d)
  case Nil
  then show ?case by (simp add: encounters_def)
next
  case (Cons lb l)
  from Cons.prems have rest: "list_all (finite_chain h) l" and "finite_chain h lb"
    by simp_all
  then obtain as where as: "ancestors h (Label.Parent lb) = Some as"
    by (auto simp: finite_chain_def)
  have ch: "chain h lb = map (labels h) as" by (simp add: chain_def as)
  let ?d1 = "foldl put_absent d (map (labels h) as)"
  have step: "(if map_of ?d1 (Label.Name lb) = None then ?d1 @ [(Label.Name lb, lb)] else ?d1)
              = put_absent ?d1 lb"
    by (simp add: put_absent_def)
  have enc: "encounters h (lb # l) = map (labels h) as @ lb # encounters h l"
    by (simp add: encounters_def ch)
  show ?case
    unfolding Labels_Push_distincts.simps walk_parents_ancestors [OF as] option.case
      Let_def step Cons.IH [OF rest] enc
    by (simp add: with_parent_name_def)
qed

lemma Labels_Push_distincts_diverges:
  "\<not> list_all (finite_chain h) l \<Longrightarrow> Labels_Push_distincts h l d = Diverges"
proof (induction l arbitrary: d)
  case Nil
  then show ?case by simp
next
  case (Cons lb l)
  show ?case
  proof (cases "finite_chain h lb")
    case False
    then have "walk_parents h (Label.Parent lb) d = None"
      by (simp add: finite_chain_def walk_parents_diverges)
    then show ?thesis by simp
  next
    case True
    with Cons.prems have "\<not> list_all (finite_chain h) l" by simp
    from Cons.IH [OF this] show ?thesis
      by (simp add: Let_def split: option.splits)
  qed
qed

section \<open>The extraction of Transactions.Push\<close>

lemma catchActor_capture: "catchActor a st = capture Actor.Name st a"
  by (cases st) (simp add: catchActor_def capture_def)

lemma catchLabel_lcatch:
  "finite_chain h l \<Longrightarrow> catchLabel h l st = Returns (lcatch h st l)"
proof -
  assume "finite_chain h l"
  then obtain as where as: "ancestors h (Label.Parent l) = Some as"
    by (auto simp: finite_chain_def)
  show ?thesis
    by (cases st)
       (simp add: catchLabel_def lcatch_def chain_def as append_parents_ancestors [OF as])
qed

lemma catch_details_lcatch:
  "list_all (\<lambda>q. q \<noteq> None) ds \<Longrightarrow> list_all (finite_chain h) (detail_label_refs h ds) \<Longrightarrow>
   catch_details h ds st = Returns (foldl (lcatch h) st (detail_label_refs h ds))"
proof (induction ds arbitrary: st)
  case Nil
  then show ?case by (simp add: detail_label_refs_def)
next
  case (Cons q ds)
  from Cons.prems(1) obtain d where q: "q = Some d" and nn: "list_all (\<lambda>q. q \<noteq> None) ds"
    by auto
  let ?r = "label_ref h (Details.Label (details h d)) (Details.LabelName (details h d))"
  have refs: "detail_label_refs h (Some d # ds) = ?r @ detail_label_refs h ds"
    by (simp add: detail_label_refs_def)
  with Cons.prems(2) q have fr: "list_all (finite_chain h) ?r"
    and fin: "list_all (finite_chain h) (detail_label_refs h ds)"
    by simp_all
  have one: "(case Details.Label (details h d) of
                Some p \<Rightarrow> catchLabel h (labels h p) st
              | None \<Rightarrow>
                  if Details.LabelName (details h d) \<noteq> ''''
                  then catchLabel h (Label_zero\<lparr>Label.Name := Details.LabelName (details h d)\<rparr>) st
                  else Returns st) = Returns (foldl (lcatch h) st ?r)"
    using fr by (auto simp: label_ref_def catchLabel_lcatch split: option.splits)
  show ?case
    unfolding q catch_details.simps one bind_outcome.simps Cons.IH [OF nn fin] refs
    by simp
qed

lemma extract_folds:
  "no_nil_details t \<Longrightarrow> list_all (finite_chain h) (label_refs h t) \<Longrightarrow>
   Transactions_Push_extract h t (sta, stl) =
     Returns (foldl (capture Actor.Name) sta (actor_refs h t),
              foldl (lcatch h) stl (label_refs h t))"
proof (induction t arbitrary: sta stl)
  case Nil
  then show ?case by (simp add: actor_refs_def label_refs_def)
next
  case (Cons trx t)
  from Cons.prems(1) have nn: "list_all (\<lambda>q. q \<noteq> None) (Transaction.Details trx)"
    and nn': "no_nil_details t"
    by (simp_all add: no_nil_details_def)
  let ?r = "label_ref h (Transaction.Label trx) (Transaction.LabelName trx)"
  let ?dr = "detail_label_refs h (Transaction.Details trx)"
  have lrefs: "label_refs h (trx # t) = ?r @ ?dr @ label_refs h t"
    by (simp add: label_refs_def)
  with Cons.prems(2) have fr: "list_all (finite_chain h) ?r"
    and fd: "list_all (finite_chain h) ?dr"
    and fin: "list_all (finite_chain h) (label_refs h t)"
    by simp_all
  have arefs: "actor_refs h (trx # t) =
      actor_ref h (Receiver trx) (ReceiverName trx) @
      actor_ref h (Sender trx) (SenderName trx) @ actor_refs h t"
    by (simp add: actor_refs_def)
  have rcv: "(case Receiver trx of
                Some p \<Rightarrow> catchActor (actors h p) s
              | None \<Rightarrow>
                  if ReceiverName trx \<noteq> ''''
                  then catchActor (Actor_zero\<lparr>Actor.Name := ReceiverName trx\<rparr>) s
                  else s)
             = foldl (capture Actor.Name) s (actor_ref h (Receiver trx) (ReceiverName trx))" for s
    by (simp add: actor_ref_def catchActor_capture split: option.splits)
  have snd: "(case Sender trx of
                Some p \<Rightarrow> catchActor (actors h p) s
              | None \<Rightarrow>
                  if SenderName trx \<noteq> ''''
                  then catchActor (Actor_zero\<lparr>Actor.Name := SenderName trx\<rparr>) s
                  else s)
             = foldl (capture Actor.Name) s (actor_ref h (Sender trx) (SenderName trx))" for s
    by (simp add: actor_ref_def catchActor_capture split: option.splits)
  have lab: "(case Transaction.Label trx of
                Some p \<Rightarrow> catchLabel h (labels h p) stl
              | None \<Rightarrow>
                  if Transaction.LabelName trx \<noteq> ''''
                  then catchLabel h (Label_zero\<lparr>Label.Name := Transaction.LabelName trx\<rparr>) stl
                  else Returns stl) = Returns (foldl (lcatch h) stl ?r)"
    using fr by (auto simp: label_ref_def catchLabel_lcatch split: option.splits)
  show ?case
    unfolding Transactions_Push_extract.simps prod.case Let_def rcv snd lab bind_outcome.simps
      catch_details_lcatch [OF nn fd] Cons.IH [OF nn' fin] arefs lrefs
    by simp
qed

lemma capture_prefix:
  "foldl (capture nm) (seen, C) xs =
     (fst (foldl (capture nm) (seen, []) xs), C @ snd (foldl (capture nm) (seen, []) xs))"
proof (induction xs arbitrary: seen C)
  case Nil
  show ?case by simp
next
  case (Cons x xs)
  show ?case
  proof (cases "seen (nm x) = None \<and> nm x \<noteq> ''''")
    case True
    then have "foldl (capture nm) (seen, C) (x # xs) = foldl (capture nm) (seen(nm x \<mapsto> True), C @ [x]) xs"
      and "foldl (capture nm) (seen, []) (x # xs) = foldl (capture nm) (seen(nm x \<mapsto> True), [x]) xs"
      by (simp_all add: capture_def)
    then show ?thesis
      using Cons.IH [of "seen(nm x \<mapsto> True)" "C @ [x]"] Cons.IH [of "seen(nm x \<mapsto> True)" "[x]"]
      by simp
  next
    case False
    then have "foldl (capture nm) (seen, C) (x # xs) = foldl (capture nm) (seen, C) xs"
      and "foldl (capture nm) (seen, []) (x # xs) = foldl (capture nm) (seen, []) xs"
      by (auto simp: capture_def)
    then show ?thesis using Cons.IH [of seen C] by simp
  qed
qed

lemma lcatch_capture:
  "foldl (lcatch h) (seen, ev) xs =
     (fst (foldl (capture Label.Name) (seen, []) xs),
      ev @ concat (map (\<lambda>l. l # chain h l) (snd (foldl (capture Label.Name) (seen, []) xs))))"
proof (induction xs arbitrary: seen ev)
  case Nil
  show ?case by simp
next
  case (Cons x xs)
  show ?case
  proof (cases "seen (Label.Name x) = None \<and> Label.Name x \<noteq> ''''")
    case True
    then have l: "foldl (lcatch h) (seen, ev) (x # xs)
        = foldl (lcatch h) (seen(Label.Name x \<mapsto> True), ev @ x # chain h x) xs"
      and c: "foldl (capture Label.Name) (seen, []) (x # xs)
        = foldl (capture Label.Name) (seen(Label.Name x \<mapsto> True), [x]) xs"
      by (simp_all add: capture_def lcatch_def)
    show ?thesis
      unfolding l c Cons.IH
      by (subst (1 2) capture_prefix [of _ _ "[x]"]) simp
  next
    case False
    then have "foldl (lcatch h) (seen, ev) (x # xs) = foldl (lcatch h) (seen, ev) xs"
      and "foldl (capture Label.Name) (seen, []) (x # xs) = foldl (capture Label.Name) (seen, []) xs"
      by (auto simp: capture_def lcatch_def)
    then show ?thesis using Cons.IH [of seen ev] by simp
  qed
qed

lemma capture_fold:
  assumes "captured_inv nm seen C"
  shows "captured_inv nm (fst (foldl (capture nm) (seen, C) xs))
           (snd (foldl (capture nm) (seen, C) xs)) \<and>
         (\<forall>x. x \<in> set (snd (foldl (capture nm) (seen, C) xs)) \<longleftrightarrow>
            x \<in> set C \<or> (nm x \<notin> nm ` set C \<and> first_named nm xs x))"
  using assms
proof (induction xs arbitrary: seen C)
  case Nil
  then show ?case by (simp add: first_named_def first_with_name_def)
next
  case (Cons x0 xs)
  from Cons.prems have d: "dom seen = nm ` set C" and di: "distinct (map nm C)"
    and ne: "'''' \<notin> nm ` set C"
    by (simp_all add: captured_inv_def)
  show ?case
  proof (cases "seen (nm x0) = None \<and> nm x0 \<noteq> ''''")
    case True
    let ?R = "foldl (capture nm) (seen(nm x0 \<mapsto> True), C @ [x0]) xs"
    from True have step: "foldl (capture nm) (seen, C) (x0 # xs) = ?R"
      by (simp add: capture_def)
    from True have "nm x0 \<notin> dom seen" by (simp add: domIff)
    with d have new: "nm x0 \<notin> nm ` set C" by simp
    have d': "dom (seen(nm x0 \<mapsto> True)) = nm ` set (C @ [x0])" using d by simp
    have di': "distinct (map nm (C @ [x0]))" using di new by simp
    have ne': "'''' \<notin> nm ` set (C @ [x0])" using ne True by auto
    have inv: "captured_inv nm (seen(nm x0 \<mapsto> True)) (C @ [x0])"
      unfolding captured_inv_def by (intro conjI d' di' ne')
    from Cons.IH [OF inv] have a: "captured_inv nm (fst ?R) (snd ?R)"
      and b: "\<And>x. (x \<in> set (snd ?R)) =
            (x \<in> set (C @ [x0]) \<or> (nm x \<notin> nm ` set (C @ [x0]) \<and> first_named nm xs x))"
      by blast+
    have mem: "(x \<in> set (C @ [x0]) \<or> (nm x \<notin> nm ` set (C @ [x0]) \<and> first_named nm xs x)) =
               (x \<in> set C \<or> (nm x \<notin> nm ` set C \<and> first_named nm (x0 # xs) x))" for x
    proof (cases "nm x0 = nm x")
      case same: True
      with new True show ?thesis by (auto simp: first_named_def first_with_name_def)
    next
      case False
      then show ?thesis by (auto simp: first_named_def first_with_name_def)
    qed
    show ?thesis
      unfolding step
    proof (intro conjI allI)
      show "captured_inv nm (fst ?R) (snd ?R)" by (rule a)
    next
      fix x
      show "(x \<in> set (snd ?R)) =
            (x \<in> set C \<or> (nm x \<notin> nm ` set C \<and> first_named nm (x0 # xs) x))"
        by (simp only: b mem)
    qed
  next
    case False
    let ?R = "foldl (capture nm) (seen, C) xs"
    from False have step: "foldl (capture nm) (seen, C) (x0 # xs) = ?R"
      by (auto simp: capture_def)
    from False have "nm x0 \<in> dom seen \<or> nm x0 = ''''" by (auto simp: domIff)
    with d have old: "nm x0 \<in> nm ` set C \<or> nm x0 = ''''" by simp
    from Cons.IH [OF Cons.prems] have a: "captured_inv nm (fst ?R) (snd ?R)"
      and b: "\<And>x. (x \<in> set (snd ?R)) =
            (x \<in> set C \<or> (nm x \<notin> nm ` set C \<and> first_named nm xs x))"
      by blast+
    have mem: "(x \<in> set C \<or> (nm x \<notin> nm ` set C \<and> first_named nm xs x)) =
               (x \<in> set C \<or> (nm x \<notin> nm ` set C \<and> first_named nm (x0 # xs) x))" for x
    proof (cases "nm x0 = nm x")
      case True
      with old show ?thesis by (auto simp: first_named_def first_with_name_def)
    next
      case False
      then show ?thesis by (auto simp: first_named_def first_with_name_def)
    qed
    show ?thesis
      unfolding step
    proof (intro conjI allI)
      show "captured_inv nm (fst ?R) (snd ?R)" by (rule a)
    next
      fix x
      show "(x \<in> set (snd ?R)) =
            (x \<in> set C \<or> (nm x \<notin> nm ` set C \<and> first_named nm (x0 # xs) x))"
        by (simp only: b mem)
    qed
  qed
qed

lemma capture_fold_empty:
  "distinct (map nm (snd (foldl (capture nm) (Map.empty, []) xs))) \<and>
   (\<forall>x. x \<in> set (snd (foldl (capture nm) (Map.empty, []) xs)) \<longleftrightarrow> first_named nm xs x)"
proof -
  have "captured_inv nm Map.empty []" by (simp add: captured_inv_def)
  from capture_fold [OF this, of xs] show ?thesis by (simp add: captured_inv_def)
qed

lemma extracted_returns:
  assumes "no_nil_details t" "list_all (finite_chain h) (label_refs h t)"
  shows "extracted h t =
     Returns (snd (foldl (capture Actor.Name) (Map.empty, []) (actor_refs h t)),
              concat (map (\<lambda>l. l # chain h l)
                (snd (foldl (capture Label.Name) (Map.empty, []) (label_refs h t)))))"
  unfolding extracted_def extract_folds [OF assms] lcatch_capture
  by (simp add: case_prod_beta)

section \<open>Claims on Labels.Push and Transactions.Push\<close>

lemma mset_names:
  assumes "mset list = mset (map snd d)" "keyed d"
  shows "distinct (map Label.Name list)"
proof -
  from assms(1) have "mset (map Label.Name list) = mset (map Label.Name (map snd d))"
    by (metis mset_map)
  also have "\<dots> = mset (map fst d)" by (simp only: keyed_names [OF assms(2)])
  finally have "mset (map Label.Name list) = mset (map fst d)" .
  moreover from assms(2) have "distinct (map fst d)" by (simp add: keyed_def)
  ultimately show ?thesis by (metis mset_eq_imp_distinct_iff)
qed

text \<open>
  Claim C2, as the code has it. For every input sequence of Labels whose parent chains
  all end in nil, the flattening loop of Labels.Push returns, and every enumeration
  \<open>list\<close> of the map it built has no two entries with the same name, holds exactly the
  Labels that are the first met with their name (an input Label or a Label on an input's
  parent chain; for each input its ancestors are met first, then the input itself), and
  so bears exactly the names of the inputs and of their ancestors. The slice is left
  with the ParentName of every element that has a parent object set to that parent's
  name, and is otherwise unchanged.
\<close>

theorem C2_flattening:
  assumes "list_all (finite_chain h) l"
  shows "\<exists>distincts.
           Labels_Push_distincts h l [] = Returns (distincts, map (with_parent_name h) l) \<and>
           (\<forall>list. mset list = mset (map snd distincts) \<longrightarrow>
              distinct (map Label.Name list) \<and>
              (\<forall>x. x \<in> set list \<longleftrightarrow> first_with_name Label.Name (encounters h l) x) \<and>
              Label.Name ` set list = Label.Name ` set (encounters h l))"
proof -
  let ?d = "foldl put_absent [] (encounters h l)"
  have k: "keyed ?d" by (rule keyed_foldl) simp
  have m: "map_of ?d n = find (\<lambda>x. Label.Name x = n) (encounters h l)" for n
    by (simp add: map_of_foldl_put_absent)
  have mem: "x \<in> set (map snd ?d) \<longleftrightarrow> first_with_name Label.Name (encounters h l) x" for x
    unfolding keyed_mem [OF k] m first_with_name_def ..
  have names: "Label.Name ` set (map snd ?d) = Label.Name ` set (encounters h l)"
  proof (intro set_eqI iffI)
    fix n assume "n \<in> Label.Name ` set (map snd ?d)"
    then obtain x where "x \<in> set (map snd ?d)" "n = Label.Name x" by blast
    with mem have "find (\<lambda>y. Label.Name y = Label.Name x) (encounters h l) = Some x"
      by (simp add: first_with_name_def)
    then have "x \<in> set (encounters h l)" by (auto simp: find_Some_iff)
    with \<open>n = Label.Name x\<close> show "n \<in> Label.Name ` set (encounters h l)" by blast
  next
    fix n assume "n \<in> Label.Name ` set (encounters h l)"
    then obtain y where y: "y \<in> set (encounters h l)" "Label.Name y = n" by blast
    then have "find (\<lambda>x. Label.Name x = n) (encounters h l) \<noteq> None"
      by (auto simp: find_None_iff)
    then obtain x where x: "find (\<lambda>x. Label.Name x = n) (encounters h l) = Some x" by blast
    then have nx: "Label.Name x = n" by (auto simp: find_Some_iff)
    with x have "first_with_name Label.Name (encounters h l) x"
      by (simp add: first_with_name_def)
    with mem have "x \<in> set (map snd ?d)" by simp
    with nx show "n \<in> Label.Name ` set (map snd ?d)" by blast
  qed
  have "\<forall>list. mset list = mset (map snd ?d) \<longrightarrow>
              distinct (map Label.Name list) \<and>
              (\<forall>x. x \<in> set list \<longleftrightarrow> first_with_name Label.Name (encounters h l) x) \<and>
              Label.Name ` set list = Label.Name ` set (encounters h l)"
  proof (intro allI impI conjI)
    fix list assume ms: "mset list = mset (map snd ?d)"
    then have s: "set list = set (map snd ?d)" by (rule mset_eq_setD)
    show "distinct (map Label.Name list)" by (rule mset_names [OF ms k])
    show "Label.Name ` set list = Label.Name ` set (encounters h l)" by (simp only: s names)
    fix x show "x \<in> set list \<longleftrightarrow> first_with_name Label.Name (encounters h l) x"
      by (simp only: s mem)
  qed
  with Labels_Push_distincts_returns [OF assms, of "[]"] show ?thesis by blast
qed

lemma finite_chain_tree: "list_all (finite_chain tree_heap) tree_labels"
  by (simp add: finite_chain_def tree_labels_def tree_heap_def heap_zero_def Label_zero_def
      ancestors_Some)

text \<open>
  The chain 2, 1, 0 and the single Label 10: the map holds 1, 0, 2 and 10, and the
  first element of the slice gets the parent name 1.
\<close>

theorem C2_flattening_witness:
  "list_all (finite_chain tree_heap) tree_labels \<and>
   (\<exists>distincts.
      Labels_Push_distincts tree_heap tree_labels [] =
        Returns (distincts,
          [Label_zero\<lparr>Label.Name := ''2'', Parent := Some 1,
                      ParentName := \<lparr>String = ''1'', Valid = True\<rparr>\<rparr>,
           Label_zero\<lparr>Label.Name := ''10''\<rparr>]) \<and>
      map Label.Name (map snd distincts) = [''1'', ''0'', ''2'', ''10''])"
proof -
  have fc: "list_all (finite_chain tree_heap) tree_labels"
    by (simp add: finite_chain_def tree_labels_def tree_heap_def heap_zero_def Label_zero_def
        ancestors_Some)
  from C2_flattening [OF fc] obtain distincts where
    d: "Labels_Push_distincts tree_heap tree_labels [] =
          Returns (distincts, map (with_parent_name tree_heap) tree_labels)"
    by blast
  have l': "map (with_parent_name tree_heap) tree_labels =
          [Label_zero\<lparr>Label.Name := ''2'', Parent := Some 1,
                      ParentName := \<lparr>String = ''1'', Valid = True\<rparr>\<rparr>,
           Label_zero\<lparr>Label.Name := ''10''\<rparr>]"
    by (simp add: with_parent_name_def tree_labels_def tree_heap_def heap_zero_def Label_zero_def)
  have "Labels_Push_distincts tree_heap tree_labels [] =
          Returns (foldl put_absent [] (encounters tree_heap tree_labels),
                   map (with_parent_name tree_heap) tree_labels)"
    by (rule Labels_Push_distincts_returns [OF fc])
  with d have "distincts = foldl put_absent [] (encounters tree_heap tree_labels)" by simp
  then have "map Label.Name (map snd distincts) = [''1'', ''0'', ''2'', ''10'']"
    by (simp add: encounters_def chain_def tree_labels_def tree_heap_def heap_zero_def
        Label_zero_def ancestors_Some put_absent_def)
  with fc d l' show ?thesis by simp
qed

text \<open>
  The claim as it is written fails on a parent chain that never reaches nil: for a
  Label whose parent is its own parent, the inner loop of Labels.Push never ends and no
  collection is produced.
\<close>

theorem C2_cyclic_chain_counterexample:
  "Labels_Push_distincts loop_heap loop_labels [] = Diverges"
proof -
  have "Label.Parent (labels loop_heap 0) = Some 0"
    by (simp add: loop_heap_def heap_zero_def Label_zero_def)
  then have "ancestors loop_heap (Some 0) = None" by (rule ancestors_self_loop)
  then have "\<not> list_all (finite_chain loop_heap) loop_labels"
    by (simp add: finite_chain_def loop_labels_def Label_zero_def)
  then show ?thesis by (rule Labels_Push_distincts_diverges)
qed

text \<open>
  The extraction panics on a nil Detail pointer and never returns on a parent chain
  without end.
\<close>

lemma extracted_nil_detail:
  "extracted heap_zero [Transaction_zero\<lparr>Details := [None]\<rparr>] = Panics"
  by (simp add: extracted_def Transaction_zero_def)

lemma extracted_cyclic_chain:
  "extracted loop_heap [Transaction_zero\<lparr>Transaction.Label := Some 0\<rparr>] = Diverges"
proof -
  have p: "Label.Parent (labels loop_heap 0) = Some 0"
    by (simp add: loop_heap_def heap_zero_def Label_zero_def)
  then have "ancestors loop_heap (Some 0) = None" by (rule ancestors_self_loop)
  then have "append_parents loop_heap (Label.Parent (labels loop_heap 0)) ev = None" for ev
    unfolding p by (rule append_parents_diverges)
  then have "catchLabel loop_heap (labels loop_heap 0) (Map.empty, []) = Diverges"
    by (simp add: catchLabel_def loop_heap_def heap_zero_def Label_zero_def)
  then show ?thesis
    by (simp add: extracted_def Transaction_zero_def)
qed

lemma bind_outcome_Returns:
  "bind_outcome m f = Returns y \<Longrightarrow> \<exists>x. m = Returns x \<and> f x = Returns y"
  by (cases m) auto

lemma catchLabel_Returns:
  assumes "catchLabel h l st = Returns st'"
  shows "st' = lcatch h st l"
proof (cases "fst st (Label.Name l) = None \<and> Label.Name l \<noteq> ''''")
  case False
  with assms show ?thesis by (cases st) (auto simp: catchLabel_def lcatch_def)
next
  case True
  obtain seen ev where st: "st = (seen, ev)" by (cases st)
  from True assms st obtain ev' where
    ap: "append_parents h (Label.Parent l) (ev @ [l]) = Some ev'"
    by (auto simp: catchLabel_def split: option.splits)
  from append_parents_returns [OF ap] have "finite_chain h l"
    by (simp add: finite_chain_def)
  from catchLabel_lcatch [OF this, of st] assms show ?thesis by simp
qed

lemma catch_details_Returns:
  "catch_details h ds st = Returns st' \<Longrightarrow>
   st' = foldl (lcatch h) st (detail_label_refs h ds) \<and> list_all (\<lambda>q. q \<noteq> None) ds"
proof (induction h ds st rule: catch_details.induct)
  case (1 h st)
  then show ?case by (simp add: detail_label_refs_def)
next
  case (2 h ds st)
  then show ?case by simp
next
  case (3 h d ds st)
  from bind_outcome_Returns [OF 3(2) [unfolded catch_details.simps]]
  obtain st1 where
    one: "(case Details.Label (details h d) of
             Some p \<Rightarrow> catchLabel h (labels h p) st
           | None \<Rightarrow>
               if Details.LabelName (details h d) \<noteq> ''''
               then catchLabel h (Label_zero\<lparr>Label.Name := Details.LabelName (details h d)\<rparr>) st
               else Returns st) = Returns st1"
    and rest: "catch_details h ds st1 = Returns st'"
    by blast
  from one have st1: "st1 = foldl (lcatch h) st
      (label_ref h (Details.Label (details h d)) (Details.LabelName (details h d)))"
    by (auto simp: label_ref_def split: option.splits if_splits dest: catchLabel_Returns)
  have refs: "detail_label_refs h (Some d # ds) =
      label_ref h (Details.Label (details h d)) (Details.LabelName (details h d)) @
      detail_label_refs h ds"
    by (simp add: detail_label_refs_def)
  from 3(1) [OF rest] show ?case by (simp add: st1 refs)
qed

lemma extract_step:
  "Transactions_Push_extract h (trx # t) (sta, stl) =
     bind_outcome
       (case Transaction.Label trx of
          Some p \<Rightarrow> catchLabel h (labels h p) stl
        | None \<Rightarrow>
            if Transaction.LabelName trx \<noteq> ''''
            then catchLabel h (Label_zero\<lparr>Label.Name := Transaction.LabelName trx\<rparr>) stl
            else Returns stl)
       (\<lambda>stl1. bind_outcome (catch_details h (Transaction.Details trx) stl1)
          (\<lambda>stl2. Transactions_Push_extract h t
             (foldl (capture Actor.Name)
                (foldl (capture Actor.Name) sta
                   (actor_ref h (Receiver trx) (ReceiverName trx)))
                (actor_ref h (Sender trx) (SenderName trx)), stl2)))"
proof -
  have rcv: "(case Receiver trx of
                Some p \<Rightarrow> catchActor (actors h p) s
              | None \<Rightarrow>
                  if ReceiverName trx \<noteq> ''''
                  then catchActor (Actor_zero\<lparr>Actor.Name := ReceiverName trx\<rparr>) s
                  else s)
             = foldl (capture Actor.Name) s (actor_ref h (Receiver trx) (ReceiverName trx))" for s
    by (simp add: actor_ref_def catchActor_capture split: option.splits)
  have sndr: "(case Sender trx of
                Some p \<Rightarrow> catchActor (actors h p) s
              | None \<Rightarrow>
                  if SenderName trx \<noteq> ''''
                  then catchActor (Actor_zero\<lparr>Actor.Name := SenderName trx\<rparr>) s
                  else s)
             = foldl (capture Actor.Name) s (actor_ref h (Sender trx) (SenderName trx))" for s
    by (simp add: actor_ref_def catchActor_capture split: option.splits)
  show ?thesis
    unfolding Transactions_Push_extract.simps prod.case Let_def rcv sndr ..
qed

lemma extract_Returns:
  "Transactions_Push_extract h t (sta, stl) = Returns st' \<Longrightarrow>
   st' = (foldl (capture Actor.Name) sta (actor_refs h t),
          foldl (lcatch h) stl (label_refs h t)) \<and> no_nil_details t"
proof (induction t arbitrary: sta stl)
  case Nil
  then show ?case by (simp add: actor_refs_def label_refs_def no_nil_details_def)
next
  case (Cons trx t)
  let ?sta2 = "foldl (capture Actor.Name)
                (foldl (capture Actor.Name) sta
                   (actor_ref h (Receiver trx) (ReceiverName trx)))
                (actor_ref h (Sender trx) (SenderName trx))"
  from bind_outcome_Returns [OF Cons.prems [unfolded extract_step]]
  obtain stl1 where
    one: "(case Transaction.Label trx of
             Some p \<Rightarrow> catchLabel h (labels h p) stl
           | None \<Rightarrow>
               if Transaction.LabelName trx \<noteq> ''''
               then catchLabel h (Label_zero\<lparr>Label.Name := Transaction.LabelName trx\<rparr>) stl
               else Returns stl) = Returns stl1"
    and rest1: "bind_outcome (catch_details h (Transaction.Details trx) stl1)
        (\<lambda>stl2. Transactions_Push_extract h t (?sta2, stl2)) = Returns st'"
    by blast
  from bind_outcome_Returns [OF rest1] obtain stl2 where
    two: "catch_details h (Transaction.Details trx) stl1 = Returns stl2"
    and rest2: "Transactions_Push_extract h t (?sta2, stl2) = Returns st'"
    by blast
  from one have stl1: "stl1 = foldl (lcatch h) stl
      (label_ref h (Transaction.Label trx) (Transaction.LabelName trx))"
    by (auto simp: label_ref_def split: option.splits if_splits dest: catchLabel_Returns)
  from catch_details_Returns [OF two]
  have stl2: "stl2 = foldl (lcatch h) stl1 (detail_label_refs h (Transaction.Details trx))"
    and nn: "list_all (\<lambda>q. q \<noteq> None) (Transaction.Details trx)"
    by simp_all
  have arefs: "actor_refs h (trx # t) =
      actor_ref h (Receiver trx) (ReceiverName trx) @
      actor_ref h (Sender trx) (SenderName trx) @ actor_refs h t"
    by (simp add: actor_refs_def)
  have lrefs: "label_refs h (trx # t) =
      label_ref h (Transaction.Label trx) (Transaction.LabelName trx) @
      detail_label_refs h (Transaction.Details trx) @ label_refs h t"
    by (simp add: label_refs_def)
  from Cons.IH [OF rest2] nn show ?case
    by (simp add: stl1 stl2 arefs lrefs no_nil_details_def)
qed

lemma extracted_Returns:
  assumes "extracted h t = Returns (everyActor, everyLabel)"
  shows "everyActor = snd (foldl (capture Actor.Name) (Map.empty, []) (actor_refs h t))"
    and "everyLabel = concat (map (\<lambda>l. l # chain h l)
           (snd (foldl (capture Label.Name) (Map.empty, []) (label_refs h t))))"
    and "no_nil_details t"
proof -
  from bind_outcome_Returns [OF assms [unfolded extracted_def]] obtain st where
    st: "Transactions_Push_extract h t ((Map.empty, []), (Map.empty, [])) = Returns st"
    and r: "snd (fst st) = everyActor" "snd (snd st) = everyLabel"
    by (auto simp: case_prod_beta)
  from extract_Returns [OF st]
  have st': "st = (foldl (capture Actor.Name) (Map.empty, []) (actor_refs h t),
                   foldl (lcatch h) (Map.empty, []) (label_refs h t))"
    and nn: "no_nil_details t"
    by simp_all
  from r(1) show "everyActor = snd (foldl (capture Actor.Name) (Map.empty, []) (actor_refs h t))"
    unfolding st' by simp
  from r(2) show "everyLabel = concat (map (\<lambda>l. l # chain h l)
           (snd (foldl (capture Label.Name) (Map.empty, []) (label_refs h t))))"
    unfolding st' lcatch_capture by simp
  show "no_nil_details t" by (rule nn)
qed

lemma bare_refs:
  "no_nil_details bare_batch" "list_all (finite_chain heap_zero) (label_refs heap_zero bare_batch)"
  by (simp_all add: no_nil_details_def bare_batch_def Transaction_zero_def label_refs_def
      label_ref_def detail_label_refs_def finite_chain_def Label_zero_def)

lemma extracted_bare:
  "extracted heap_zero bare_batch =
     Returns ([Actor_zero\<lparr>Actor.Name := ''Alexandru''\<rparr>],
              [Label_zero\<lparr>Label.Name := ''Transfer''\<rparr>])"
  unfolding extracted_returns [OF bare_refs]
  by (simp add: bare_batch_def Transaction_zero_def label_refs_def actor_refs_def
      label_ref_def actor_ref_def detail_label_refs_def capture_def chain_def Label_zero_def
      Actor_zero_def)

lemma shared_refs:
  "no_nil_details shared_batch"
  "list_all (finite_chain shared_heap) (label_refs shared_heap shared_batch)"
  by (simp_all add: no_nil_details_def shared_batch_def Transaction_zero_def label_refs_def
      label_ref_def detail_label_refs_def finite_chain_def Label_zero_def shared_heap_def
      heap_zero_def Details_zero_def ancestors_Some)

text \<open>
  Claim C3, as the code has it. On a batch whose Detail pointers are non-nil and whose
  referenced Labels have parent chains that end in nil, the extraction returns; and
  whenever it returns, the Actors it hands over have distinct names and are exactly the
  first references with each non-empty name (receiver before sender, transaction by
  transaction), and the Labels it hands over are the first references with each
  non-empty name (the transaction's label, then its details' labels), pairwise distinct
  by name, each followed by all of its ancestors. The ancestors are appended as they
  are, so the same name may occur again among them; they are deduplicated only
  afterwards, by Labels.Push.
\<close>

theorem C3_extraction:
  "(no_nil_details t \<and> list_all (finite_chain h) (label_refs h t) \<longrightarrow>
      (\<exists>everyActor everyLabel. extracted h t = Returns (everyActor, everyLabel))) \<and>
   (extracted h t = Returns (everyActor, everyLabel) \<longrightarrow>
      distinct (map Actor.Name everyActor) \<and>
      (\<forall>a. a \<in> set everyActor \<longleftrightarrow> first_named Actor.Name (actor_refs h t) a) \<and>
      (\<exists>captured.
         everyLabel = concat (map (\<lambda>l. l # chain h l) captured) \<and>
         distinct (map Label.Name captured) \<and>
         (\<forall>l. l \<in> set captured \<longleftrightarrow> first_named Label.Name (label_refs h t) l)))"
proof (intro conjI impI)
  assume "no_nil_details t \<and> list_all (finite_chain h) (label_refs h t)"
  then show "\<exists>everyActor everyLabel. extracted h t = Returns (everyActor, everyLabel)"
    using extracted_returns [of t h] by blast
next
  assume r: "extracted h t = Returns (everyActor, everyLabel)"
  note e = extracted_Returns [OF r]
  note ca = capture_fold_empty [of Actor.Name "actor_refs h t"]
  note cl = capture_fold_empty [of Label.Name "label_refs h t"]
  show "distinct (map Actor.Name everyActor)"
    unfolding e(1) using ca by (rule conjunct1)
  show "\<forall>a. a \<in> set everyActor \<longleftrightarrow> first_named Actor.Name (actor_refs h t) a"
    unfolding e(1) using ca by (rule conjunct2)
  show "\<exists>captured.
         everyLabel = concat (map (\<lambda>l. l # chain h l) captured) \<and>
         distinct (map Label.Name captured) \<and>
         (\<forall>l. l \<in> set captured \<longleftrightarrow> first_named Label.Name (label_refs h t) l)"
    by (rule exI [of _ "snd (foldl (capture Label.Name) (Map.empty, []) (label_refs h t))"])
       (intro conjI e(2) cl [THEN conjunct1] cl [THEN conjunct2])
qed

text \<open>
  A Transaction given by bare names: one Actor and one Label are synthesized.
\<close>

theorem C3_extraction_witness:
  "no_nil_details bare_batch \<and>
   list_all (finite_chain heap_zero) (label_refs heap_zero bare_batch) \<and>
   extracted heap_zero bare_batch =
     Returns ([Actor_zero\<lparr>Actor.Name := ''Alexandru''\<rparr>],
              [Label_zero\<lparr>Label.Name := ''Transfer''\<rparr>]) \<and>
   first_named Actor.Name (actor_refs heap_zero bare_batch)
     (Actor_zero\<lparr>Actor.Name := ''Alexandru''\<rparr>)"
proof -
  from C3_extraction [of bare_batch heap_zero "[Actor_zero\<lparr>Actor.Name := ''Alexandru''\<rparr>]"
      "[Label_zero\<lparr>Label.Name := ''Transfer''\<rparr>]"] extracted_bare
  have "\<forall>a. a \<in> set [Actor_zero\<lparr>Actor.Name := ''Alexandru''\<rparr>] \<longleftrightarrow>
          first_named Actor.Name (actor_refs heap_zero bare_batch) a"
    by blast
  then have "first_named Actor.Name (actor_refs heap_zero bare_batch)
     (Actor_zero\<lparr>Actor.Name := ''Alexandru''\<rparr>)" by auto
  with bare_refs extracted_bare show ?thesis by simp
qed

text \<open>
  The claim as it is written fails where two captured Labels share an ancestor: the
  extracted Label list names P twice.
\<close>

theorem C3_duplicate_ancestor_counterexample:
  "extracted shared_heap shared_batch =
     Returns ([], [labels shared_heap 0, labels shared_heap 2,
                   labels shared_heap 1, labels shared_heap 2]) \<and>
   map Label.Name [labels shared_heap 0, labels shared_heap 2,
                   labels shared_heap 1, labels shared_heap 2] = [''A'', ''P'', ''B'', ''P''] \<and>
   \<not> distinct [''A'', ''P'', ''B'', ''P'']"
  unfolding extracted_returns [OF shared_refs]
  by (simp add: shared_batch_def Transaction_zero_def label_refs_def actor_refs_def
      label_ref_def actor_ref_def detail_label_refs_def capture_def chain_def Label_zero_def
      shared_heap_def heap_zero_def Details_zero_def ancestors_Some)

lemma first_named_filter:
  "first_named nm xs x \<Longrightarrow> x \<in> set (filter (\<lambda>y. nm y \<noteq> '''') xs)"
  by (auto simp: first_named_def first_with_name_def find_Some_iff)

lemma nameless_refs:
  "no_nil_details nameless_batch"
  "list_all (finite_chain heap_zero) (label_refs heap_zero nameless_batch)"
  by (simp_all add: no_nil_details_def nameless_batch_def Transaction_zero_def label_refs_def
      label_ref_def detail_label_refs_def finite_chain_def Label_zero_def)

lemma extracted_nameless:
  "extracted heap_zero nameless_batch = Returns ([Actor_zero\<lparr>Actor.Name := ''Magazin''\<rparr>], [])"
  unfolding extracted_returns [OF nameless_refs]
  by (simp add: nameless_batch_def Transaction_zero_def label_refs_def actor_refs_def
      label_ref_def actor_ref_def detail_label_refs_def capture_def chain_def Label_zero_def
      Actor_zero_def heap_zero_def)

lemma unnamed_refs:
  "no_nil_details unnamed_batch"
  "list_all (finite_chain unnamed_heap) (label_refs unnamed_heap unnamed_batch)"
  by (simp_all add: no_nil_details_def unnamed_batch_def Transaction_zero_def label_refs_def
      label_ref_def detail_label_refs_def finite_chain_def Label_zero_def unnamed_heap_def
      heap_zero_def ancestors_Some)

text \<open>
  Claim C10, as the code has it. On a batch whose Detail pointers are non-nil and whose
  referenced Labels have parent chains that end in nil, the extraction returns (it has
  no error to raise); and whenever it returns, every extracted Actor and every captured
  Label has a non-empty name and is one of the batch's references with a non-empty
  name, so a sender, receiver or label with the empty name yields no entry. The
  ancestors that follow a captured Label are not checked for their names.
\<close>

theorem C10_empty_names_skipped:
  "(no_nil_details t \<and> list_all (finite_chain h) (label_refs h t) \<longrightarrow>
      (\<exists>everyActor everyLabel. extracted h t = Returns (everyActor, everyLabel))) \<and>
   (extracted h t = Returns (everyActor, everyLabel) \<longrightarrow>
      list_all (\<lambda>a. Actor.Name a \<noteq> '''') everyActor \<and>
      set everyActor \<subseteq> set (filter (\<lambda>a. Actor.Name a \<noteq> '''') (actor_refs h t)) \<and>
      (\<exists>captured.
         everyLabel = concat (map (\<lambda>l. l # chain h l) captured) \<and>
         list_all (\<lambda>l. Label.Name l \<noteq> '''') captured \<and>
         set captured \<subseteq> set (filter (\<lambda>l. Label.Name l \<noteq> '''') (label_refs h t))))"
proof (intro conjI impI)
  assume "no_nil_details t \<and> list_all (finite_chain h) (label_refs h t)"
  then show "\<exists>everyActor everyLabel. extracted h t = Returns (everyActor, everyLabel)"
    using extracted_returns [of t h] by blast
next
  assume r: "extracted h t = Returns (everyActor, everyLabel)"
  note e = extracted_Returns [OF r]
  let ?c = "snd (foldl (capture Label.Name) (Map.empty, []) (label_refs h t))"
  have a: "set everyActor \<subseteq> set (filter (\<lambda>a. Actor.Name a \<noteq> '''') (actor_refs h t))"
    unfolding e(1)
    using capture_fold_empty [of Actor.Name "actor_refs h t"] first_named_filter [of Actor.Name]
    by blast
  have c: "set ?c \<subseteq> set (filter (\<lambda>l. Label.Name l \<noteq> '''') (label_refs h t))"
    using capture_fold_empty [of Label.Name "label_refs h t"] first_named_filter [of Label.Name]
    by blast
  from a show "list_all (\<lambda>a. Actor.Name a \<noteq> '''') everyActor" by (auto simp: list_all_iff)
  from a show "set everyActor \<subseteq> set (filter (\<lambda>a. Actor.Name a \<noteq> '''') (actor_refs h t))" .
  from c have c': "list_all (\<lambda>l. Label.Name l \<noteq> '''') ?c" by (auto simp: list_all_iff)
  show "\<exists>captured.
         everyLabel = concat (map (\<lambda>l. l # chain h l) captured) \<and>
         list_all (\<lambda>l. Label.Name l \<noteq> '''') captured \<and>
         set captured \<subseteq> set (filter (\<lambda>l. Label.Name l \<noteq> '''') (label_refs h t))"
    by (rule exI [of _ ?c]) (intro conjI e(2) c c')
qed

text \<open>
  A Transaction whose sender object has the empty name and whose label name is empty:
  only the receiver is extracted.
\<close>

theorem C10_empty_names_skipped_witness:
  "no_nil_details nameless_batch \<and>
   list_all (finite_chain heap_zero) (label_refs heap_zero nameless_batch) \<and>
   actor_refs heap_zero nameless_batch = [Actor_zero\<lparr>Actor.Name := ''Magazin''\<rparr>, Actor_zero] \<and>
   extracted heap_zero nameless_batch = Returns ([Actor_zero\<lparr>Actor.Name := ''Magazin''\<rparr>], []) \<and>
   set [Actor_zero\<lparr>Actor.Name := ''Magazin''\<rparr>]
     \<subseteq> set (filter (\<lambda>a. Actor.Name a \<noteq> '''') (actor_refs heap_zero nameless_batch))"
proof -
  from C10_empty_names_skipped [of nameless_batch heap_zero
      "[Actor_zero\<lparr>Actor.Name := ''Magazin''\<rparr>]" "[]"] extracted_nameless
  have "set [Actor_zero\<lparr>Actor.Name := ''Magazin''\<rparr>]
     \<subseteq> set (filter (\<lambda>a. Actor.Name a \<noteq> '''') (actor_refs heap_zero nameless_batch))"
    by blast
  moreover have "actor_refs heap_zero nameless_batch =
      [Actor_zero\<lparr>Actor.Name := ''Magazin''\<rparr>, Actor_zero]"
    by (simp add: nameless_batch_def Transaction_zero_def actor_refs_def actor_ref_def
        heap_zero_def)
  ultimately show ?thesis using nameless_refs extracted_nameless by simp
qed

text \<open>
  The claim as it is written fails for an ancestor: the parent of Label A has the empty
  name and is extracted all the same.
\<close>

theorem C10_unnamed_ancestor_counterexample:
  "extracted unnamed_heap unnamed_batch =
     Returns ([], [Label_zero\<lparr>Label.Name := ''A'', Parent := Some 1\<rparr>, Label_zero]) \<and>
   Label.Name Label_zero = ''''"
  unfolding extracted_returns [OF unnamed_refs]
  by (simp add: unnamed_batch_def Transaction_zero_def label_refs_def actor_refs_def
      label_ref_def actor_ref_def detail_label_refs_def capture_def chain_def Label_zero_def
      unnamed_heap_def heap_zero_def ancestors_Some)

lemma ancestors_finite_chains:
  "ancestors h p = Some as \<Longrightarrow> list_all (finite_chain h) (map (labels h) as)"
proof (induction as arbitrary: p)
  case Nil
  show ?case by simp
next
  case (Cons a as)
  from ancestors_Cons [OF Cons.prems]
  have rest: "ancestors h (Label.Parent (labels h a)) = Some as" by simp
  then have "finite_chain h (labels h a)" by (simp add: finite_chain_def)
  with Cons.IH [OF rest] show ?case by simp
qed

lemma catchLabel_finite_chains:
  assumes "catchLabel h l st = Returns st'" "list_all (finite_chain h) (snd st)"
  shows "list_all (finite_chain h) (snd st')"
proof (cases "fst st (Label.Name l) = None \<and> Label.Name l \<noteq> ''''")
  case False
  with assms(1) have "st' = st" by (cases st) (auto simp: catchLabel_def)
  with assms(2) show ?thesis by simp
next
  case True
  obtain seen ev where st: "st = (seen, ev)" by (cases st)
  from True assms(1) st obtain ev' where
    ap: "append_parents h (Label.Parent l) (ev @ [l]) = Some ev'"
    and st': "st' = (seen(Label.Name l \<mapsto> True), ev')"
    by (auto simp: catchLabel_def split: option.splits)
  from append_parents_returns [OF ap] obtain as where
    as: "ancestors h (Label.Parent l) = Some as" by auto
  from append_parents_ancestors [OF as, of "ev @ [l]"] ap
  have ev': "ev' = (ev @ [l]) @ map (labels h) as" by simp
  have "finite_chain h l" by (simp add: finite_chain_def as)
  with ancestors_finite_chains [OF as] assms(2) show ?thesis
    by (simp add: st st' ev')
qed

lemma catch_details_finite_chains:
  "catch_details h ds st = Returns st' \<Longrightarrow> list_all (finite_chain h) (snd st) \<Longrightarrow>
   list_all (finite_chain h) (snd st')"
proof (induction h ds st rule: catch_details.induct)
  case (1 h st)
  then show ?case by simp
next
  case (2 h ds st)
  then show ?case by simp
next
  case (3 h d ds st)
  from bind_outcome_Returns [OF 3(2) [unfolded catch_details.simps]]
  obtain st1 where
    one: "(case Details.Label (details h d) of
             Some p \<Rightarrow> catchLabel h (labels h p) st
           | None \<Rightarrow>
               if Details.LabelName (details h d) \<noteq> ''''
               then catchLabel h (Label_zero\<lparr>Label.Name := Details.LabelName (details h d)\<rparr>) st
               else Returns st) = Returns st1"
    and rest: "catch_details h ds st1 = Returns st'"
    by blast
  from one 3(3) have "list_all (finite_chain h) (snd st1)"
    by (auto split: option.splits if_splits dest: catchLabel_finite_chains)
  with 3(1) rest show ?case by blast
qed

lemma extract_finite_chains:
  "Transactions_Push_extract h t st = Returns st' \<Longrightarrow>
   list_all (finite_chain h) (snd (snd st)) \<Longrightarrow>
   list_all (finite_chain h) (snd (snd st'))"
proof (induction t arbitrary: st)
  case Nil
  then show ?case by simp
next
  case (Cons trx t)
  obtain sta stl where st: "st = (sta, stl)" by (cases st)
  from Cons.prems(1) [unfolded st Transactions_Push_extract.simps prod.case Let_def]
  obtain stl1 where
    one: "(case Transaction.Label trx of
             Some p \<Rightarrow> catchLabel h (labels h p) stl
           | None \<Rightarrow>
               if Transaction.LabelName trx \<noteq> ''''
               then catchLabel h (Label_zero\<lparr>Label.Name := Transaction.LabelName trx\<rparr>) stl
               else Returns stl) = Returns stl1"
    and rest1: "bind_outcome (catch_details h (Transaction.Details trx) stl1)
        (\<lambda>stl2. Transactions_Push_extract h t
           (case Sender trx of
              Some p \<Rightarrow> catchActor (actors h p)
                (case Receiver trx of
                   Some p \<Rightarrow> catchActor (actors h p) sta
                 | None \<Rightarrow>
                     if ReceiverName trx \<noteq> ''''
                     then catchActor (Actor_zero\<lparr>Actor.Name := ReceiverName trx\<rparr>) sta
                     else sta)
            | None \<Rightarrow>
                if SenderName trx \<noteq> ''''
                then catchActor (Actor_zero\<lparr>Actor.Name := SenderName trx\<rparr>)
                  (case Receiver trx of
                     Some p \<Rightarrow> catchActor (actors h p) sta
                   | None \<Rightarrow>
                       if ReceiverName trx \<noteq> ''''
                       then catchActor (Actor_zero\<lparr>Actor.Name := ReceiverName trx\<rparr>) sta
                       else sta)
                else (case Receiver trx of
                        Some p \<Rightarrow> catchActor (actors h p) sta
                      | None \<Rightarrow>
                          if ReceiverName trx \<noteq> ''''
                          then catchActor (Actor_zero\<lparr>Actor.Name := ReceiverName trx\<rparr>) sta
                          else sta),
            stl2)) = Returns st'"
    by (blast dest: bind_outcome_Returns)
  from bind_outcome_Returns [OF rest1] obtain stl2 sta2 where
    two: "catch_details h (Transaction.Details trx) stl1 = Returns stl2"
    and rest2: "Transactions_Push_extract h t (sta2, stl2) = Returns st'"
    by blast
  from one Cons.prems(2) have "list_all (finite_chain h) (snd stl1)"
    by (auto simp: st split: option.splits if_splits dest: catchLabel_finite_chains)
  with two have "list_all (finite_chain h) (snd stl2)"
    by (rule catch_details_finite_chains)
  with Cons.IH [OF rest2] show ?case by simp
qed

text \<open>
  Claim C4. Whatever the storage does and whatever mode the caller asked for,
  Transactions.Push writes the extracted Actors first and the extracted Labels (as
  Labels.Push flattens them) second, both with the skip-on-conflict clause, and the
  Transactions third with the clause of the caller's mode. It stops at the first write
  that fails and returns that error, so the Transactions are written only after both
  dependency writes succeeded. Nothing is written when the extraction does not return.
\<close>

theorem C4_dependencies_first:
  "Transactions_Push (recording fails) order h t ctx =
     (case extracted h t of
        Diverges \<Rightarrow> Diverges
      | Panics \<Rightarrow> Panics
      | Returns (everyActor, everyLabel) \<Rightarrow>
          (let A = (OnConflict_zero\<lparr>DoNothing := True\<rparr>, ActorRows everyActor, BatchSize ctx);
               L = (OnConflict_zero\<lparr>DoNothing := True\<rparr>,
                    LabelRows (map snd (order (foldl put_absent [] (encounters h everyLabel)))),
                    BatchSize ctx);
               T = (Transactions_Push_clause (JustAppend ctx), TransactionRows t, BatchSize ctx);
               log = Storage ctx
           in Returns
                (case fails log A of
                   Some err \<Rightarrow> (Some err, log @ [A])
                 | None \<Rightarrow>
                     (case fails (log @ [A]) L of
                        Some err \<Rightarrow> (Some err, log @ [A, L])
                      | None \<Rightarrow> (fails (log @ [A, L]) T, log @ [A, L, T])))))"
proof (cases "Transactions_Push_extract h t ((Map.empty, []), (Map.empty, []))")
  case Diverges
  then show ?thesis by (simp add: Transactions_Push_def extracted_def)
next
  case Panics
  then show ?thesis by (simp add: Transactions_Push_def extracted_def)
next
  case (Returns st)
  obtain seenActors everyActor seenLabels everyLabel
    where st: "st = ((seenActors, everyActor), (seenLabels, everyLabel))"
    by (cases st) auto
  from extract_finite_chains [OF Returns] have "list_all (finite_chain h) everyLabel"
    by (simp add: st)
  then have fl: "Labels_Push_distincts h everyLabel [] =
      Returns (foldl put_absent [] (encounters h everyLabel),
               map (with_parent_name h) everyLabel)"
    by (rule Labels_Push_distincts_returns)
  have ex: "extracted h t = Returns (everyActor, everyLabel)"
    by (simp add: extracted_def Returns st)
  show ?thesis
    unfolding ex Transactions_Push_def Returns st
    by (simp add: Actors_Push_def Labels_Push_def fl recording_def Let_def Labels_Push_clause_def
        split: option.splits)
qed

text \<open>
  A replace-mode push of one Transaction given by bare names to a storage that accepts
  everything: three writes, the first two skip-on-conflict.
\<close>

theorem C4_dependencies_first_witness:
  "Transactions_Push (recording (\<lambda>log w. (None :: string option))) (\<lambda>d. d) heap_zero bare_batch
     \<lparr>Storage = [], BatchSize = 10, JustAppend = False\<rparr> =
   Returns (None,
     [(OnConflict_zero\<lparr>DoNothing := True\<rparr>,
       ActorRows [Actor_zero\<lparr>Actor.Name := ''Alexandru''\<rparr>], 10),
      (OnConflict_zero\<lparr>DoNothing := True\<rparr>,
       LabelRows [Label_zero\<lparr>Label.Name := ''Transfer''\<rparr>], 10),
      (OnConflict_zero\<lparr>Columns := [''uuid''],
         DoUpdates := [''label_name'', ''sender_name'', ''receiver_name'',
                       ''flags'', ''headers'', ''updated_at'']\<rparr>,
       TransactionRows bare_batch, 10)])"
  using C4_dependencies_first [of "\<lambda>log w. (None :: string option)" "\<lambda>d. d" heap_zero
      bare_batch "\<lparr>Storage = [], BatchSize = 10, JustAppend = False\<rparr>"]
  by (simp add: extracted_bare encounters_def chain_def put_absent_def Label_zero_def
      Transactions_Push_clause_def AssignmentColumns_def)

text \<open>
  Claim C5. With the clause that Transactions.Push builds in Replace mode, a conflict
  on \<open>uuid\<close> takes exactly the columns label_name, sender_name, receiver_name, flags,
  headers and updated_at from the incoming row and leaves every other column, date and
  amount among them, as stored; with the clause of Labels.Push, a conflict on \<open>name\<close>
  takes exactly parent_name, flags, headers and updated_at from the incoming row.
\<close>

theorem C5_replace_columns:
  "on_conflict (Transactions_Push_clause False) [''uuid''] stored incoming c =
     (if c \<in> {''label_name'', ''sender_name'', ''receiver_name'',
               ''flags'', ''headers'', ''updated_at''}
      then incoming c else stored c) \<and>
   on_conflict (Transactions_Push_clause False) [''uuid''] stored incoming ''date''
     = stored ''date'' \<and>
   on_conflict (Transactions_Push_clause False) [''uuid''] stored incoming ''amount''
     = stored ''amount'' \<and>
   Columns (Transactions_Push_clause False) = [''uuid''] \<and>
   on_conflict (Labels_Push_clause False) [''name''] stored incoming c =
     (if c \<in> {''parent_name'', ''flags'', ''headers'', ''updated_at''}
      then incoming c else stored c) \<and>
   Columns (Labels_Push_clause False) = [''name'']"
  by (simp add: on_conflict_def Transactions_Push_clause_def Labels_Push_clause_def
      OnConflict_zero_def AssignmentColumns_def)

text \<open>On rows that hold "stored" and "incoming" in every column.\<close>

theorem C5_replace_columns_witness:
  "on_conflict (Transactions_Push_clause False) [''uuid'']
     (\<lambda>c. ''stored'') (\<lambda>c. ''incoming'') ''amount'' = ''stored'' \<and>
   on_conflict (Transactions_Push_clause False) [''uuid'']
     (\<lambda>c. ''stored'') (\<lambda>c. ''incoming'') ''flags'' = ''incoming'' \<and>
   on_conflict (Labels_Push_clause False) [''name'']
     (\<lambda>c. ''stored'') (\<lambda>c. ''incoming'') ''parent_name'' = ''incoming'' \<and>
   on_conflict (Labels_Push_clause False) [''name'']
     (\<lambda>c. ''stored'') (\<lambda>c. ''incoming'') ''created_at'' = ''stored''"
  using C5_replace_columns [of "\<lambda>c. ''stored''" "\<lambda>c. ''incoming''" "''flags''"]
    C5_replace_columns [of "\<lambda>c. ''stored''" "\<lambda>c. ''incoming''" "''parent_name''"]
    C5_replace_columns [of "\<lambda>c. ''stored''" "\<lambda>c. ''incoming''" "''created_at''"]
  by simp

section \<open>The JSON round trip\<close>
















end
